theory Spec2Isabelle
  imports Main "HOL-Library.AList"
begin

section \<open>JavaScript values\<close>

text \<open>
  The gateway works on parsed JSON. A value is null, a boolean, a number, a string, an
  array or an object; an object is an association list in insertion order, and a lookup
  that finds nothing is JavaScript's \<open>undefined\<close>, modelled as \<open>None\<close>. Numbers are
  copied, compared with zero and, in one place, printed by the functions below, so integers
  stand for them.
\<close>

datatype json =
    JNull
  | JBool bool
  | JNum int
  | JStr string
  | JArr "json list"
  | JObj "(string \<times> json) list"

text \<open>Property access \<open>v.k\<close> on a value that is not null; \<open>None\<close> is \<open>undefined\<close>.\<close>

fun getField :: "json \<Rightarrow> string \<Rightarrow> json option" where
  "getField (JObj kvs) k = map_of kvs k"
| "getField _ k = None"

text \<open>JavaScript truthiness of a value; \<open>undefined\<close> is falsy.\<close>

fun truthy :: "json \<Rightarrow> bool" where
  "truthy JNull = False"
| "truthy (JBool b) = b"
| "truthy (JNum n) = (n \<noteq> 0)"
| "truthy (JStr s) = (s \<noteq> [])"
| "truthy (JArr xs) = True"
| "truthy (JObj kvs) = True"

definition truthyOpt :: "json option \<Rightarrow> bool" where
  "truthyOpt v = (case v of None \<Rightarrow> False | Some x \<Rightarrow> truthy x)"

definition startsWith :: "string \<Rightarrow> string \<Rightarrow> bool" where
  "startsWith s p = (take (length p) s = p)"

text \<open>\<open>typeof v === 'object'\<close>: true of null, arrays and objects.\<close>

fun typeofObject :: "json \<Rightarrow> bool" where
  "typeofObject JNull = True"
| "typeofObject (JArr xs) = True"
| "typeofObject (JObj kvs) = True"
| "typeofObject _ = False"

text \<open>
  The decimal numeral of a natural number, as \<open>String(n)\<close> gives it: the keys that
  \<open>Object.entries\<close> yields for an array, and numbers inside messages.
\<close>

fun digitsOf :: "nat \<Rightarrow> string" where
  "digitsOf n = (if n < 10 then [char_of (48 + n)] else digitsOf (n div 10) @ [char_of (48 + n mod 10)])"

declare digitsOf.simps [simp del]

fun isArray :: "json \<Rightarrow> bool" where
  "isArray (JArr xs) = True"
| "isArray _ = False"

fun isBoolean :: "json \<Rightarrow> bool" where
  "isBoolean (JBool b) = True"
| "isBoolean _ = False"

text \<open>
  A failed JavaScript evaluation is a value: \<open>TypeError\<close> is the exception the code would
  throw (calling a method that the value does not have, or converting to a string an object
  that cannot be converted). \<open>OutsideModel\<close> marks the input shapes whose evaluation needs
  JavaScript's number coercions, which the model does not contain: a signature that is an
  object with a \<open>length\<close> member, and the numeral of a number that is not a safe integer.
\<close>

datatype jsError = TypeError | OutsideModel

text \<open>
  Conversion to a string, as \<open>'' + v\<close>, \<open>String(v)\<close> and \<open>Array.prototype.join\<close> do it. An
  object parsed from JSON has no callable member of its own, so an own member \<open>toString\<close>
  hides \<open>Object.prototype.toString\<close> and the conversion throws a TypeError (a member
  \<open>valueOf\<close> of its own is skipped, and \<open>Object.prototype.valueOf\<close> returns the object);
  without it the result is \<open>[object Object]\<close>. An array is converted by joining its
  elements, and throws when one of them does. Every other value can be converted.
\<close>

fun stringConvertible :: "json \<Rightarrow> bool"
  and allConvertible :: "json list \<Rightarrow> bool"
where
  "stringConvertible (JObj kvs) = (map_of kvs ''toString'' = None)"
| "stringConvertible (JArr xs) = allConvertible xs"
| "stringConvertible v = True"
| "allConvertible [] = True"
| "allConvertible (x # xs) = (stringConvertible x \<and> allConvertible xs)"

section \<open>Tool-id codec (format-converter.js)\<close>

text \<open>
  \<open>toOpenAIToolId\<close> and \<open>toAnthropicToolId\<close>. The identifier is a string or absent
  (\<open>None\<close>); an absent or empty identifier is falsy and takes the random fallback. The first
  argument \<open>rnd\<close> is the hexadecimal text that \<open>crypto.randomBytes(12).toString('hex')\<close>
  returns at that call. \<open>stripCallOrToolu\<close> is \<open>replace(/^(call_|toolu_)/, '')\<close> and
  \<open>stripFc\<close> is \<open>replace(/^fc_/, '')\<close>.
\<close>

definition stripCallOrToolu :: "string \<Rightarrow> string" where
  "stripCallOrToolu s =
     (if startsWith s ''call_'' then drop 5 s
      else if startsWith s ''toolu_'' then drop 6 s
      else s)"

definition stripFc :: "string \<Rightarrow> string" where
  "stripFc s = (if startsWith s ''fc_'' then drop 3 s else s)"

definition toOpenAIToolId :: "string \<Rightarrow> string option \<Rightarrow> string" where
  "toOpenAIToolId rnd anthropicId =
     (case anthropicId of
        None \<Rightarrow> ''fc_'' @ rnd
      | Some s \<Rightarrow>
          if s = [] then ''fc_'' @ rnd
          else if startsWith s ''fc_'' then s
          else ''fc_'' @ stripCallOrToolu s)"

definition toAnthropicToolId :: "string \<Rightarrow> string option \<Rightarrow> string" where
  "toAnthropicToolId rnd openAIId =
     (case openAIId of
        None \<Rightarrow> ''toolu_'' @ rnd
      | Some s \<Rightarrow>
          if s = [] then ''toolu_'' @ rnd
          else if startsWith s ''toolu_'' then s
          else ''toolu_'' @ stripFc s)"

section \<open>Thinking-block pipeline (thinking-utils.js)\<close>

definition MIN_SIGNATURE_LENGTH :: nat where
  "MIN_SIGNATURE_LENGTH = 50"

definition hasType :: "json \<Rightarrow> string \<Rightarrow> bool" where
  "hasType block t = (getField block ''type'' = Some (JStr t))"

definition isThinkingPart :: "json \<Rightarrow> bool" where
  "isThinkingPart part =
     (hasType part ''thinking'' \<or> hasType part ''redacted_thinking'' \<or>
      getField part ''thinking'' \<noteq> None \<or>
      getField part ''thought'' = Some (JBool True))"

definition hasValidSignature :: "json \<Rightarrow> bool" where
  "hasValidSignature part =
     (case (if getField part ''thought'' = Some (JBool True)
            then getField part ''thoughtSignature''
            else getField part ''signature'') of
        Some (JStr sig) \<Rightarrow> MIN_SIGNATURE_LENGTH \<le> length sig
      | _ \<Rightarrow> False)"

text \<open>The entry \<open>k\<close> of a sanitized copy: present exactly when \<open>block.k !== undefined\<close>.\<close>

definition optField :: "json \<Rightarrow> string \<Rightarrow> (string \<times> json) list" where
  "optField block k = (case getField block k of None \<Rightarrow> [] | Some v \<Rightarrow> [(k, v)])"

definition sanitizeAnthropicThinkingBlock :: "json \<Rightarrow> json" where
  "sanitizeAnthropicThinkingBlock block =
     (if \<not> truthy block then block
      else if hasType block ''thinking'' then
        JObj ((''type'', JStr ''thinking'') # optField block ''thinking'' @ optField block ''signature'')
      else if hasType block ''redacted_thinking'' then
        JObj ((''type'', JStr ''redacted_thinking'') # optField block ''data'')
      else block)"

definition sanitizeTextBlock :: "json \<Rightarrow> json" where
  "sanitizeTextBlock block =
     (if \<not> truthy block \<or> \<not> hasType block ''text'' then block
      else JObj ((''type'', JStr ''text'') # optField block ''text''))"

definition sanitizeToolUseBlock :: "json \<Rightarrow> json" where
  "sanitizeToolUseBlock block =
     (if \<not> truthy block \<or> \<not> hasType block ''tool_use'' then block
      else JObj ((''type'', JStr ''tool_use'') # optField block ''id'' @ optField block ''name''
                 @ optField block ''input'' @ optField block ''thoughtSignature''))"

subsection \<open>removeTrailingThinkingBlocks\<close>

text \<open>
  The backward loop \<open>for (i = content.length - 1; i >= 0; i--)\<close>. The second argument is
  \<open>i + 1\<close>, the third is \<open>endIndex\<close>; every \<open>break\<close> returns the current \<open>endIndex\<close>.
\<close>

fun trailingScan :: "json list \<Rightarrow> nat \<Rightarrow> nat \<Rightarrow> nat" where
  "trailingScan content 0 endIndex = endIndex"
| "trailingScan content (Suc i) endIndex =
     (let block = content ! i in
      if \<not> truthy block \<or> \<not> typeofObject block then endIndex
      else if isThinkingPart block then
        (if \<not> hasValidSignature block then trailingScan content i i else endIndex)
      else endIndex)"

fun removeTrailingThinkingBlocks :: "json \<Rightarrow> json" where
  "removeTrailingThinkingBlocks (JArr content) =
     (if length content = 0 then JArr content
      else let endIndex = trailingScan content (length content) (length content) in
        if endIndex < length content then JArr (take endIndex content) else JArr content)"
| "removeTrailingThinkingBlocks v = v"

subsection \<open>restoreThinkingSignatures\<close>

text \<open>
  \<open>block.signature && block.signature.length >= MIN_SIGNATURE_LENGTH\<close>. A string and an
  array have a length; a boolean or a number has none, and \<open>undefined >= 50\<close> is false.
\<close>

fun signatureLongEnough :: "json option \<Rightarrow> jsError + bool" where
  "signatureLongEnough None = Inr False"
| "signatureLongEnough (Some (JStr sig)) = Inr (sig \<noteq> [] \<and> MIN_SIGNATURE_LENGTH \<le> length sig)"
| "signatureLongEnough (Some (JArr xs)) = Inr (MIN_SIGNATURE_LENGTH \<le> length xs)"
| "signatureLongEnough (Some (JObj kvs)) =
     (if map_of kvs ''length'' = None then Inr False else Inl OutsideModel)"
| "signatureLongEnough (Some v) = Inr False"

fun restoreLoop :: "json list \<Rightarrow> json list \<Rightarrow> jsError + json list" where
  "restoreLoop [] filtered = Inr filtered"
| "restoreLoop (block # rest) filtered =
     (if \<not> truthy block \<or> \<not> hasType block ''thinking'' then restoreLoop rest (filtered @ [block])
      else case signatureLongEnough (getField block ''signature'') of
             Inl e \<Rightarrow> Inl e
           | Inr True \<Rightarrow> restoreLoop rest (filtered @ [sanitizeAnthropicThinkingBlock block])
           | Inr False \<Rightarrow> restoreLoop rest filtered)"

fun restoreThinkingSignatures :: "json \<Rightarrow> jsError + json" where
  "restoreThinkingSignatures (JArr content) =
     (case restoreLoop content [] of Inl e \<Rightarrow> Inl e | Inr filtered \<Rightarrow> Inr (JArr filtered))"
| "restoreThinkingSignatures v = Inr v"

subsection \<open>reorderAssistantContent\<close>

text \<open>
  White space as \<open>String.prototype.trim\<close> sees it, for characters below 256: tab, line
  feed, vertical tab, form feed, carriage return, space and no-break space.
  \<open>text.trim().length > 0\<close> holds when some character is not white space.
\<close>

definition isWhiteSpace :: "char \<Rightarrow> bool" where
  "isWhiteSpace c = (of_char c \<in> {9, 10, 11, 12, 13, 32, 160 :: nat})"

definition trimIsEmpty :: "string \<Rightarrow> bool" where
  "trimIsEmpty s = list_all isWhiteSpace s"

text \<open>
  \<open>block.text && block.text.trim().length > 0\<close>: a falsy text is dropped without a call;
  a truthy text that is not a string has no \<open>trim\<close> method, and the call throws.
\<close>

fun textIsMeaningful :: "json option \<Rightarrow> jsError + bool" where
  "textIsMeaningful None = Inr False"
| "textIsMeaningful (Some (JStr s)) = Inr (s \<noteq> [] \<and> \<not> trimIsEmpty s)"
| "textIsMeaningful (Some v) = (if truthy v then Inl TypeError else Inr False)"

fun reorderLoop ::
  "json list \<Rightarrow> json list \<Rightarrow> json list \<Rightarrow> json list
     \<Rightarrow> jsError + (json list \<times> json list \<times> json list)" where
  "reorderLoop [] thinkingBlocks textBlocks toolUseBlocks =
     Inr (thinkingBlocks, textBlocks, toolUseBlocks)"
| "reorderLoop (block # rest) thinkingBlocks textBlocks toolUseBlocks =
     (if \<not> truthy block then reorderLoop rest thinkingBlocks textBlocks toolUseBlocks
      else if hasType block ''thinking'' \<or> hasType block ''redacted_thinking'' then
        reorderLoop rest (thinkingBlocks @ [sanitizeAnthropicThinkingBlock block])
          textBlocks toolUseBlocks
      else if hasType block ''tool_use'' then
        reorderLoop rest thinkingBlocks textBlocks (toolUseBlocks @ [sanitizeToolUseBlock block])
      else if hasType block ''text'' then
        (case textIsMeaningful (getField block ''text'') of
           Inl e \<Rightarrow> Inl e
         | Inr True \<Rightarrow>
             reorderLoop rest thinkingBlocks (textBlocks @ [sanitizeTextBlock block]) toolUseBlocks
         | Inr False \<Rightarrow> reorderLoop rest thinkingBlocks textBlocks toolUseBlocks)
      else reorderLoop rest thinkingBlocks (textBlocks @ [block]) toolUseBlocks)"

fun reorderAssistantContent :: "json \<Rightarrow> jsError + json" where
  "reorderAssistantContent (JArr content) =
     (if length content = 1 then
        (let block = content ! 0 in
         if truthy block \<and> (hasType block ''thinking'' \<or> hasType block ''redacted_thinking'')
         then Inr (JArr [sanitizeAnthropicThinkingBlock block])
         else Inr (JArr content))
      else case reorderLoop content [] [] [] of
             Inl e \<Rightarrow> Inl e
           | Inr (thinkingBlocks, textBlocks, toolUseBlocks) \<Rightarrow>
               Inr (JArr (thinkingBlocks @ textBlocks @ toolUseBlocks)))"
| "reorderAssistantContent v = Inr v"

subsection \<open>processAssistantContent\<close>

fun processAssistantContent :: "json \<Rightarrow> jsError + json" where
  "processAssistantContent (JArr content) =
     (case restoreThinkingSignatures (JArr content) of
        Inl e \<Rightarrow> Inl e
      | Inr processed \<Rightarrow> reorderAssistantContent (removeTrailingThinkingBlocks processed))"
| "processAssistantContent v = Inr v"

section \<open>Specification vocabulary for the thinking-block pipeline\<close>

text \<open>
  The condition under which the backward scan of \<open>removeTrailingThinkingBlocks\<close> removes a
  block, collected from the tests of the loop body.
\<close>

definition removableBlock :: "json \<Rightarrow> bool" where
  "removableBlock block =
     (truthy block \<and> typeofObject block \<and> isThinkingPart block \<and> \<not> hasValidSignature block)"


text \<open>
  The same condition in the words of the specification: a block of type \<open>thinking\<close> or
  \<open>redacted_thinking\<close> whose signature is missing or shorter than 50 characters.
\<close>

definition unsignedThinkingBlock :: "json \<Rightarrow> bool" where
  "unsignedThinkingBlock block =
     ((hasType block ''thinking'' \<or> hasType block ''redacted_thinking'') \<and>
      (case getField block ''signature'' of
         Some (JStr sig) \<Rightarrow> length sig < 50
       | _ \<Rightarrow> True))"


text \<open>
  A content block of Protocol A as far as the scan reads it: an object, with a
  \<open>thinking\<close> member only when its type is \<open>thinking\<close>, and without the \<open>thought\<close>
  member of another wire format.
\<close>

fun contentBlock :: "json \<Rightarrow> bool" where
  "contentBlock (JObj kvs) =
     ((map_of kvs ''thinking'' = None \<or> map_of kvs ''type'' = Some (JStr ''thinking'')) \<and>
      map_of kvs ''thought'' = None)"
| "contentBlock _ = False"


text \<open>The blocks of the two examples: a text block, and a thinking block with or without signature.\<close>

definition textBlock :: "string \<Rightarrow> json" where
  "textBlock t = JObj [(''type'', JStr ''text''), (''text'', JStr t)]"

definition thinkingBlock :: "string \<Rightarrow> string option \<Rightarrow> json" where
  "thinkingBlock th sig =
     JObj ([(''type'', JStr ''thinking''), (''thinking'', JStr th)] @
           (case sig of None \<Rightarrow> [] | Some s \<Rightarrow> [(''signature'', JStr s)]))"

definition shortOrMissing :: "string option \<Rightarrow> bool" where
  "shortOrMissing sig = (case sig of None \<Rightarrow> True | Some s \<Rightarrow> length s < 50)"

text \<open>
  Vocabulary of the reorder invariant. A block is thinking-typed when its type is
  \<open>thinking\<close> or \<open>redacted_thinking\<close>. \<open>blockRank\<close> numbers the three groups in the order
  the specification requires: 0 for thinking-typed blocks, 1 for text blocks (and every block
  of another type, which the code keeps with the text blocks), 2 for tool_use blocks. A
  sequence is in the required order when its ranks are sorted.
\<close>

definition thinkingTyped :: "json \<Rightarrow> bool" where
  "thinkingTyped block = (hasType block ''thinking'' \<or> hasType block ''redacted_thinking'')"

definition blockRank :: "json \<Rightarrow> nat" where
  "blockRank block =
     (if thinkingTyped block then 0 else if hasType block ''tool_use'' then 2 else 1)"

text \<open>A signature member that is a string of at least 50 characters.\<close>

definition validlySigned :: "json \<Rightarrow> bool" where
  "validlySigned block =
     (case getField block ''signature'' of Some (JStr sig) \<Rightarrow> 50 \<le> length sig | _ \<Rightarrow> False)"

text \<open>
  An assistant content block of Protocol A: an object of type thinking, redacted_thinking,
  text or tool_use, whose \<open>text\<close> and \<open>signature\<close> members are strings when present.
\<close>

definition stringOrAbsent :: "json option \<Rightarrow> bool" where
  "stringOrAbsent v = (case v of None \<Rightarrow> True | Some (JStr s) \<Rightarrow> True | Some _ \<Rightarrow> False)"

fun assistantBlock :: "json \<Rightarrow> bool" where
  "assistantBlock (JObj kvs) =
     ((thinkingTyped (JObj kvs) \<or> hasType (JObj kvs) ''text'' \<or> hasType (JObj kvs) ''tool_use'') \<and>
      stringOrAbsent (map_of kvs ''text'') \<and> stringOrAbsent (map_of kvs ''signature''))"
| "assistantBlock _ = False"

text \<open>An assistant block that, if its type is \<open>thinking\<close>, is validly signed.\<close>

definition signedIfThinking :: "json \<Rightarrow> bool" where
  "signedIfThinking block = (assistantBlock block \<and> (\<not> hasType block ''thinking'' \<or> validlySigned block))"

section \<open>Schema sanitizer (format-converter.js)\<close>

text \<open>The keys that the loop of \<open>sanitizeSchema\<close> skips.\<close>

definition unsupportedKeywords :: "string list" where
  "unsupportedKeywords =
     [''$schema'', ''$id'', ''$ref'', ''$defs'', ''$comment'',
      ''additionalItems'', ''definitions'', ''examples'',
      ''minLength'', ''maxLength'', ''pattern'', ''format'',
      ''minItems'', ''maxItems'', ''minimum'', ''maximum'',
      ''exclusiveMinimum'', ''exclusiveMaximum'',
      ''allOf'', ''anyOf'', ''oneOf'', ''not'']"

text \<open>
  \<open>value.filter(t => t !== 'null')\<close>, then the first remaining type or \<open>'string'\<close>.
\<close>

definition firstNonNullType :: "json list \<Rightarrow> json" where
  "firstNonNullType ts =
     (let nonNullTypes = filter (\<lambda>t. t \<noteq> JStr ''null'') ts in
      if length nonNullTypes > 0 then nonNullTypes ! 0 else JStr ''string'')"

text \<open>
  The two statements after the loop: a falsy \<open>result.type\<close> becomes \<open>'object'\<close>, and an
  object type without truthy \<open>result.properties\<close> receives empty properties.
\<close>

definition finishSchema :: "(string \<times> json) list \<Rightarrow> json" where
  "finishSchema result =
     (let result1 = (if \<not> truthyOpt (map_of result ''type'')
                     then AList.update ''type'' (JStr ''object'') result else result);
          result2 = (if map_of result1 ''type'' = Some (JStr ''object'')
                        \<and> \<not> truthyOpt (map_of result1 ''properties'')
                     then AList.update ''properties'' (JObj []) result1 else result1)
      in JObj result2)"

text \<open>
  The body of the loop over \<open>Object.entries(schema)\<close> for one entry. The results of the
  recursive calls that the branches may make are arguments: \<open>asSchema\<close> is
  \<open>sanitizeSchema(value)\<close>, \<open>members\<close> is the object that the inner loop over
  \<open>Object.entries(value)\<close> builds in \<open>result.properties\<close>, and \<open>elements\<close> is
  \<open>value.map(item => sanitizeSchema(item))\<close>. An assignment \<open>result.k = v\<close> keeps the
  position of a key that is already present and appends a new one, as \<open>AList.update\<close> does.
\<close>

definition entryStep ::
  "string \<Rightarrow> json \<Rightarrow> json \<Rightarrow> (string \<times> json) list \<Rightarrow> json list
     \<Rightarrow> (string \<times> json) list \<Rightarrow> (string \<times> json) list" where
  "entryStep key val asSchema members elements result =
     (if key = ''const'' then AList.update ''enum'' (JArr [val]) result
      else if key \<in> set unsupportedKeywords then result
      else if key = ''additionalProperties'' \<and> isBoolean val then result
      else if key = ''type'' \<and> isArray val then
        (case val of JArr ts \<Rightarrow> AList.update ''type'' (firstNonNullType ts) result | _ \<Rightarrow> result)
      else if key = ''properties'' \<and> truthy val \<and> typeofObject val then
        AList.update ''properties'' (JObj members) result
      else if key = ''items'' then
        (if isArray val then AList.update ''items'' (JArr elements) result
         else if typeofObject val then AList.update ''items'' asSchema result
         else AList.update ''items'' val result)
      else if key = ''required'' \<and> isArray val then AList.update ''required'' val result
      else if key = ''enum'' \<and> isArray val then AList.update ''enum'' val result
      else if key \<in> set [''type'', ''description'', ''title''] then AList.update key val result
      else result)"

text \<open>
  \<open>sanitizeSchema\<close> itself. A value that is not an object, or null, gives \<open>{type: 'object'}\<close>;
  an array is an object whose keys are indices, none of which the loop keeps.
  \<open>sanitizeEntries\<close> is the loop, \<open>sanitizeProperties\<close> and \<open>sanitizeIndexed\<close> are the
  inner loop over the entries of an object and of an array, \<open>sanitizeItems\<close> is the map
  over an \<open>items\<close> array. The inner loop assigns \<open>result.properties[propKey]\<close>; for the
  key \<open>__proto__\<close> that assignment sets the prototype and creates no property.
\<close>

fun sanitizeSchema :: "json \<Rightarrow> json"
  and sanitizeEntries :: "(string \<times> json) list \<Rightarrow> (string \<times> json) list \<Rightarrow> (string \<times> json) list"
  and sanitizeMembers :: "json \<Rightarrow> (string \<times> json) list"
  and sanitizeProperties :: "(string \<times> json) list \<Rightarrow> (string \<times> json) list \<Rightarrow> (string \<times> json) list"
  and sanitizeIndexed :: "nat \<Rightarrow> json list \<Rightarrow> (string \<times> json) list \<Rightarrow> (string \<times> json) list"
  and sanitizeElements :: "json \<Rightarrow> json list"
  and sanitizeItems :: "json list \<Rightarrow> json list"
where
  "sanitizeSchema (JObj kvs) = finishSchema (sanitizeEntries kvs [])"
| "sanitizeSchema (JArr xs) = finishSchema []"
| "sanitizeSchema JNull = JObj [(''type'', JStr ''object'')]"
| "sanitizeSchema (JBool b) = JObj [(''type'', JStr ''object'')]"
| "sanitizeSchema (JNum n) = JObj [(''type'', JStr ''object'')]"
| "sanitizeSchema (JStr s) = JObj [(''type'', JStr ''object'')]"
| "sanitizeEntries [] result = result"
| "sanitizeEntries ((key, val) # rest) result =
     sanitizeEntries rest
       (entryStep key val (sanitizeSchema val) (sanitizeMembers val) (sanitizeElements val) result)"
| "sanitizeMembers (JObj props) = sanitizeProperties props []"
| "sanitizeMembers (JArr xs) = sanitizeIndexed 0 xs []"
| "sanitizeMembers JNull = []"
| "sanitizeMembers (JBool b) = []"
| "sanitizeMembers (JNum n) = []"
| "sanitizeMembers (JStr s) = []"
| "sanitizeProperties [] props = props"
| "sanitizeProperties ((propKey, propValue) # rest) props =
     (if propKey = ''__proto__'' then sanitizeProperties rest props
      else sanitizeProperties rest (AList.update propKey (sanitizeSchema propValue) props))"
| "sanitizeIndexed i [] props = props"
| "sanitizeIndexed i (item # rest) props =
     sanitizeIndexed (Suc i) rest (AList.update (digitsOf i) (sanitizeSchema item) props)"
| "sanitizeElements (JArr xs) = sanitizeItems xs"
| "sanitizeElements (JObj kvs) = []"
| "sanitizeElements JNull = []"
| "sanitizeElements (JBool b) = []"
| "sanitizeElements (JNum n) = []"
| "sanitizeElements (JStr s) = []"
| "sanitizeItems [] = []"
| "sanitizeItems (item # rest) = sanitizeSchema item # sanitizeItems rest"

text \<open>
  A sanitized schema is free of unsupported keywords when neither \<open>const\<close> nor a key of
  \<open>unsupportedKeywords\<close> is a key of it, of a schema under its \<open>properties\<close>, or of a
  schema in or under its \<open>items\<close>, recursively. Property names are not keywords.
\<close>

fun keywordFree :: "json \<Rightarrow> bool"
  and keywordFreeFields :: "(string \<times> json) list \<Rightarrow> bool"
  and keywordFreeMembers :: "json \<Rightarrow> bool"
  and keywordFreeProps :: "(string \<times> json) list \<Rightarrow> bool"
  and keywordFreeItems :: "json \<Rightarrow> bool"
  and keywordFreeList :: "json list \<Rightarrow> bool"
where
  "keywordFree (JObj kvs) = keywordFreeFields kvs"
| "keywordFree (JArr xs) = True"
| "keywordFree JNull = True"
| "keywordFree (JBool b) = True"
| "keywordFree (JNum n) = True"
| "keywordFree (JStr s) = True"
| "keywordFreeFields [] = True"
| "keywordFreeFields ((key, val) # rest) =
     (key \<noteq> ''const'' \<and> key \<notin> set unsupportedKeywords \<and>
      (if key = ''properties'' then keywordFreeMembers val
       else if key = ''items'' then keywordFreeItems val
       else True) \<and>
      keywordFreeFields rest)"
| "keywordFreeMembers (JObj props) = keywordFreeProps props"
| "keywordFreeMembers (JArr xs) = True"
| "keywordFreeMembers JNull = True"
| "keywordFreeMembers (JBool b) = True"
| "keywordFreeMembers (JNum n) = True"
| "keywordFreeMembers (JStr s) = True"
| "keywordFreeProps [] = True"
| "keywordFreeProps ((propKey, propValue) # rest) = (keywordFree propValue \<and> keywordFreeProps rest)"
| "keywordFreeItems (JArr xs) = keywordFreeList xs"
| "keywordFreeItems (JObj kvs) = keywordFreeFields kvs"
| "keywordFreeItems JNull = True"
| "keywordFreeItems (JBool b) = True"
| "keywordFreeItems (JNum n) = True"
| "keywordFreeItems (JStr s) = True"
| "keywordFreeList [] = True"
| "keywordFreeList (item # rest) = (keywordFree item \<and> keywordFreeList rest)"

section \<open>Stream re-encoders\<close>

text \<open>
  The events both generators yield. \<open>message_start\<close> carries the message id and the model
  (the other members of its message are constants), \<open>content_block_start\<close> the index and the
  content block, \<open>content_block_delta\<close> the index and the delta, \<open>message_delta\<close> the stop
  reason and the usage. The input of a re-encoder is the sequence of JSON values parsed from
  the \<open>data:\<close> lines of the upstream body, in order; a line that does not parse changes
  nothing and is not part of the sequence.
\<close>

datatype sseEvent =
    message_start string string
  | content_block_start nat json
  | content_block_delta nat json
  | content_block_stop nat
  | message_delta string json
  | message_stop

text \<open>\<open>v || 0\<close>, \<open>a?.k\<close> and \<open>a || b\<close>.\<close>

definition orZero :: "json option \<Rightarrow> json" where
  "orZero v = (case v of None \<Rightarrow> JNum 0 | Some x \<Rightarrow> if truthy x then x else JNum 0)"

definition optionalChain :: "json option \<Rightarrow> string \<Rightarrow> json option" where
  "optionalChain v k = (case v of None \<Rightarrow> None | Some JNull \<Rightarrow> None | Some x \<Rightarrow> getField x k)"

definition orElse :: "json option \<Rightarrow> json option \<Rightarrow> json option" where
  "orElse a b = (case a of None \<Rightarrow> b | Some x \<Rightarrow> if truthy x then Some x else b)"

definition emptyTextBlock :: json where
  "emptyTextBlock = JObj [(''type'', JStr ''text''), (''text'', JStr [])]"

definition textDelta :: "json \<Rightarrow> json" where
  "textDelta t = JObj [(''type'', JStr ''text_delta''), (''text'', t)]"

definition inputJsonDelta :: "json \<Rightarrow> json" where
  "inputJsonDelta d = JObj [(''type'', JStr ''input_json_delta''), (''partial_json'', d)]"

definition optEntry :: "string \<Rightarrow> json option \<Rightarrow> (string \<times> json) list" where
  "optEntry k v = (case v of None \<Rightarrow> [] | Some x \<Rightarrow> [(k, x)])"

definition toolUseBlock :: "json option \<Rightarrow> json option \<Rightarrow> json" where
  "toolUseBlock ident name =
     JObj ((''type'', JStr ''tool_use'') # optEntry ''id'' ident @ optEntry ''name'' name
           @ [(''input'', JObj [])])"

subsection \<open>streamResponsesAPI (response-streamer.js)\<close>

text \<open>
  The variables of the generator that a later read depends on. \<open>inputTokens\<close>,
  \<open>outputTokens\<close>, \<open>currentBlockId\<close>, \<open>currentToolName\<close> and \<open>pendingArguments\<close> are
  written and never read again, and are left out.
\<close>

record streamState =
  hasEmittedStart :: bool
  blockIndex :: nat
  currentBlockType :: "string option"
  stopReason :: string
  usage :: json

definition initialState :: streamState where
  "initialState =
     \<lparr> hasEmittedStart = False, blockIndex = 0, currentBlockType = None,
       stopReason = ''end_turn'',
       usage = JObj [(''input_tokens'', JNum 0), (''output_tokens'', JNum 0)] \<rparr>"

definition completedUsage :: "json \<Rightarrow> json" where
  "completedUsage u =
     JObj [(''input_tokens'', orZero (getField u ''input_tokens'')),
           (''output_tokens'', orZero (getField u ''output_tokens'')),
           (''cache_read_input_tokens'', orZero (getField u ''cache_read_input_tokens''))]"

text \<open>
  The handler of \<open>response.output_item.added\<close>. The two yields before \<open>item.type\<close> have
  happened when an absent or null item throws there, so they are part of the output.
\<close>

definition itemAdded ::
  "string \<Rightarrow> string \<Rightarrow> json option \<Rightarrow> streamState \<Rightarrow> sseEvent list \<times> streamState" where
  "itemAdded messageId model item s =
     (let started = (if \<not> hasEmittedStart s then [message_start messageId model] else []);
          s1 = s\<lparr>hasEmittedStart := True\<rparr>;
          closed = (if currentBlockType s1 \<noteq> None then [content_block_stop (blockIndex s1)] else []);
          s2 = (if currentBlockType s1 \<noteq> None then s1\<lparr>blockIndex := blockIndex s1 + 1\<rparr> else s1)
      in case item of
           None \<Rightarrow> (started @ closed, s2)
         | Some JNull \<Rightarrow> (started @ closed, s2)
         | Some it \<Rightarrow>
             if getField it ''type'' = Some (JStr ''message'') then
               (started @ closed @ [content_block_start (blockIndex s2) emptyTextBlock],
                s2\<lparr>currentBlockType := Some ''text''\<rparr>)
             else if getField it ''type'' = Some (JStr ''function_call'') then
               (started @ closed @
                  [content_block_start (blockIndex s2)
                     (toolUseBlock (orElse (getField it ''call_id'') (getField it ''id''))
                        (getField it ''name''))],
                s2\<lparr>currentBlockType := Some ''tool_use'', stopReason := ''tool_use''\<rparr>)
             else if getField it ''type'' = Some (JStr ''reasoning'') then
               (started @ closed @
                  [content_block_start (blockIndex s2)
                     (JObj [(''type'', JStr ''thinking''), (''thinking'', JStr [])])],
                s2\<lparr>currentBlockType := Some ''thinking''\<rparr>)
             else (started @ closed, s2))"

text \<open>
  The body of the \<open>try\<close> block for one parsed event. A null event throws at \<open>event.type\<close>
  and is ignored by the \<open>catch\<close>. An arguments delta that cannot be converted to a string
  throws at \<open>pendingArguments += delta\<close>, before its event is yielded.
\<close>

definition responsesStep ::
  "string \<Rightarrow> string \<Rightarrow> json \<Rightarrow> streamState \<Rightarrow> sseEvent list \<times> streamState" where
  "responsesStep messageId model event s =
     (if event = JNull then ([], s)
      else
        let eventType = getField event ''type'';
            responseUsage = optionalChain (getField event ''response'') ''usage'';
            s1 = (case responseUsage of
                    Some u \<Rightarrow>
                      if eventType = Some (JStr ''response.completed'') \<and> truthy u
                      then s\<lparr>usage := completedUsage u\<rparr> else s
                  | None \<Rightarrow> s)
        in if eventType = Some (JStr ''response.output_item.added'') then
             itemAdded messageId model (getField event ''item'') s1
           else if eventType = Some (JStr ''response.output_text.delta'') then
             (case getField event ''delta'' of
                Some delta \<Rightarrow>
                  if truthy delta \<and> currentBlockType s1 = Some ''text''
                  then ([content_block_delta (blockIndex s1) (textDelta delta)], s1)
                  else ([], s1)
              | None \<Rightarrow> ([], s1))
           else if eventType = Some (JStr ''response.function_call_arguments.delta'') then
             (case getField event ''delta'' of
                Some delta \<Rightarrow>
                  if truthy delta \<and> currentBlockType s1 = Some ''tool_use''
                  then (if stringConvertible delta
                        then ([content_block_delta (blockIndex s1) (inputJsonDelta delta)], s1)
                        else ([], s1))
                  else ([], s1)
              | None \<Rightarrow> ([], s1))
           else ([], s1))"

text \<open>The read loop: the outputs of the steps in order, and the final state.\<close>

fun runEvents ::
  "(json \<Rightarrow> 's \<Rightarrow> sseEvent list \<times> 's) \<Rightarrow> json list \<Rightarrow> 's \<Rightarrow> sseEvent list \<times> 's" where
  "runEvents step [] s = ([], s)"
| "runEvents step (event # rest) s =
     (let (out, s1) = step event s; (outs, s2) = runEvents step rest s1 in (out @ outs, s2))"

text \<open>The statements after the read loop.\<close>

definition finishStream :: "string \<Rightarrow> string \<Rightarrow> streamState \<Rightarrow> sseEvent list" where
  "finishStream messageId model s =
     (if \<not> hasEmittedStart s then
        [message_start messageId model,
         content_block_start 0 emptyTextBlock,
         content_block_delta 0 (textDelta (JStr [])),
         content_block_stop 0]
      else if currentBlockType s \<noteq> None then [content_block_stop (blockIndex s)]
      else [])
     @ [message_delta (stopReason s) (usage s), message_stop]"

definition streamResponsesAPI :: "string \<Rightarrow> string \<Rightarrow> json list \<Rightarrow> sseEvent list" where
  "streamResponsesAPI messageId model events =
     (let (out, s) = runEvents (responsesStep messageId model) events initialState
      in out @ finishStream messageId model s)"

subsection \<open>streamOpenAIChat (kilo-streamer.js)\<close>

text \<open>
  The state of the chat-completions re-encoder adds \<open>currentToolCallId\<close>, which starts as
  null and may become \<open>undefined\<close> (\<open>None\<close>) when a tool call has no id. The map
  \<open>pendingToolArgs\<close> and \<open>currentToolName\<close> are written and never read, and are left out.
\<close>

record chatState = streamState +
  currentToolCallId :: "json option"

definition initialChatState :: chatState where
  "initialChatState =
     \<lparr> hasEmittedStart = False, blockIndex = 0, currentBlockType = None,
       stopReason = ''end_turn'',
       usage = JObj [(''input_tokens'', JNum 0), (''output_tokens'', JNum 0)],
       currentToolCallId = Some JNull \<rparr>"

text \<open>
  \<open>a === b\<close> on values read from parsed chunks: primitives are compared by value, and two
  arrays or objects from different places of the parse are never the same object.
\<close>

fun strictEq :: "json option \<Rightarrow> json option \<Rightarrow> bool" where
  "strictEq None None = True"
| "strictEq (Some (JArr xs)) b = False"
| "strictEq (Some (JObj kvs)) b = False"
| "strictEq (Some x) (Some y) = (x = y)"
| "strictEq a b = False"

definition chunkUsage :: "json \<Rightarrow> json" where
  "chunkUsage u =
     JObj [(''input_tokens'', orZero (getField u ''prompt_tokens'')),
           (''output_tokens'', orZero (getField u ''completion_tokens''))]"

fun firstElement :: "json \<Rightarrow> json option" where
  "firstElement (JArr xs) = (case xs of [] \<Rightarrow> None | x # _ \<Rightarrow> Some x)"
| "firstElement (JObj kvs) = map_of kvs ''0''"
| "firstElement (JStr s) = (case s of [] \<Rightarrow> None | c # _ \<Rightarrow> Some (JStr [c]))"
| "firstElement v = None"

definition startTextBlock :: "chatState \<Rightarrow> sseEvent \<times> chatState" where
  "startTextBlock s =
     (content_block_start (blockIndex s) emptyTextBlock,
      s\<lparr>currentBlockType := Some ''text'', currentToolCallId := Some JNull\<rparr>)"

text \<open>
  \<open>startToolBlock\<close> assigns \<open>currentBlockType\<close> first; a null tool call then throws a
  TypeError at \<open>toolCall.id\<close>, and the result is \<open>None\<close> with the state reached.
\<close>

definition startToolBlock :: "json \<Rightarrow> chatState \<Rightarrow> sseEvent option \<times> chatState" where
  "startToolBlock toolCall s =
     (let s1 = s\<lparr>currentBlockType := Some ''tool_use''\<rparr>
      in if toolCall = JNull then (None, s1)
         else
           (Some (content_block_start (blockIndex s1)
              (toolUseBlock (getField toolCall ''id'')
                 (orElse (optionalChain (getField toolCall ''function'') ''name'')
                    (Some (JStr ''tool''))))),
            s1\<lparr>currentToolCallId := getField toolCall ''id'', stopReason := ''tool_use''\<rparr>))"

text \<open>The first \<open>if\<close> of \<open>handleDelta\<close>: a truthy \<open>delta.content\<close>.\<close>

definition contentPart :: "string \<Rightarrow> string \<Rightarrow> json \<Rightarrow> chatState \<Rightarrow> sseEvent list \<times> chatState" where
  "contentPart messageId model delta s =
     (case getField delta ''content'' of
        None \<Rightarrow> ([], s)
      | Some content \<Rightarrow>
          if \<not> truthy content then ([], s)
          else if \<not> hasEmittedStart s then
            (let (ev, s1) = startTextBlock (s\<lparr>hasEmittedStart := True\<rparr>)
             in ([message_start messageId model, ev,
                  content_block_delta (blockIndex s1) (textDelta content)], s1))
          else if currentBlockType s \<noteq> Some ''text'' then
            (let (ev, s1) = startTextBlock (s\<lparr>blockIndex := blockIndex s + 1\<rparr>)
             in ([content_block_stop (blockIndex s), ev,
                  content_block_delta (blockIndex s1) (textDelta content)], s1))
          else ([content_block_delta (blockIndex s) (textDelta content)], s))"

text \<open>
  The body of the loop over \<open>delta.tool_calls\<close> for one entry: the events it pushes and
  the state it leaves; the result is \<open>None\<close>, with the state reached, when it throws. A null
  entry throws a TypeError at \<open>toolCall.id\<close>: in the condition when the current block is a
  tool-call block, and otherwise in \<open>startToolBlock\<close>, after the open block has been closed.
  Truthy arguments that cannot be converted to a string throw at \<open>prev + argsDelta\<close>
  (\<open>prev\<close> is a string), after the block has been started.
\<close>

definition toolCallBody ::
  "string \<Rightarrow> string \<Rightarrow> json \<Rightarrow> chatState \<Rightarrow> sseEvent list option \<times> chatState" where
  "toolCallBody messageId model toolCall s =
     (let started = (if \<not> hasEmittedStart s then [message_start messageId model] else []);
          s1 = s\<lparr>hasEmittedStart := True\<rparr>
      in if currentBlockType s1 = Some ''tool_use'' \<and> toolCall = JNull then (None, s1)
         else
           let (opened, s2) =
                 (if currentBlockType s1 \<noteq> Some ''tool_use''
                     \<or> \<not> strictEq (currentToolCallId s1) (getField toolCall ''id'')
                  then
                    (let closed = (if currentBlockType s1 \<noteq> None
                                   then [content_block_stop (blockIndex s1)] else []);
                         s1' = (if currentBlockType s1 \<noteq> None
                                then s1\<lparr>blockIndex := blockIndex s1 + 1\<rparr> else s1)
                     in case startToolBlock toolCall s1' of
                          (None, s1'') \<Rightarrow> (None, s1'')
                        | (Some ev, s1'') \<Rightarrow> (Some (closed @ [ev]), s1''))
                  else (Some [], s1))
           in case opened of
                None \<Rightarrow> (None, s2)
              | Some pushed \<Rightarrow>
                  (case orElse (optionalChain (getField toolCall ''function'') ''arguments'')
                          (Some (JStr [])) of
                     Some argsDelta \<Rightarrow>
                       if truthy argsDelta then
                         (if stringConvertible argsDelta
                          then (Some (started @ pushed
                                      @ [content_block_delta (blockIndex s2) (inputJsonDelta argsDelta)]),
                                s2)
                          else (None, s2))
                       else (Some (started @ pushed), s2)
                   | None \<Rightarrow> (Some (started @ pushed), s2)))"

text \<open>
  The loop itself, appending to the \<open>events\<close> that \<open>handleDelta\<close> has collected; an
  exception leaves the loop with the events lost.
\<close>

fun toolCallsLoop ::
  "string \<Rightarrow> string \<Rightarrow> json list \<Rightarrow> sseEvent list \<Rightarrow> chatState
     \<Rightarrow> sseEvent list option \<times> chatState" where
  "toolCallsLoop messageId model [] events s = (Some events, s)"
| "toolCallsLoop messageId model (toolCall # rest) events s =
     (case toolCallBody messageId model toolCall s of
        (None, s1) \<Rightarrow> (None, s1)
      | (Some pushed, s1) \<Rightarrow> toolCallsLoop messageId model rest (events @ pushed) s1)"

text \<open>\<open>handleDelta\<close>: the content part, then the tool calls when they are an array.\<close>

definition handleDelta ::
  "string \<Rightarrow> string \<Rightarrow> json \<Rightarrow> chatState \<Rightarrow> sseEvent list option \<times> chatState" where
  "handleDelta messageId model delta s =
     (let (events, s1) = contentPart messageId model delta s
      in case getField delta ''tool_calls'' of
           Some (JArr toolCalls) \<Rightarrow> toolCallsLoop messageId model toolCalls events s1
         | _ \<Rightarrow> (Some events, s1))"

definition finishReason :: "json \<Rightarrow> string" where
  "finishReason fr = (if fr = JStr ''tool_calls'' then ''tool_use'' else ''end_turn'')"

text \<open>
  \<open>chunk.choices?.[0]\<close> for a chunk that is not null: the first element of an array (or the
  member \<open>0\<close> of an object, or the first character of a string); \<open>None\<close> is \<open>undefined\<close>.
\<close>

definition chunkChoice :: "json \<Rightarrow> json option" where
  "chunkChoice chunk =
     (case getField chunk ''choices'' of
        None \<Rightarrow> None
      | Some JNull \<Rightarrow> None
      | Some choices \<Rightarrow> firstElement choices)"

text \<open>\<open>choice.delta || {}\<close>.\<close>

definition choiceDelta :: "json \<Rightarrow> json" where
  "choiceDelta choice =
     (case getField choice ''delta'' of
        Some d \<Rightarrow> if truthy d then d else JObj []
      | None \<Rightarrow> JObj [])"

text \<open>
  The body of the \<open>try\<close> block for one parsed chunk. A null chunk throws at \<open>chunk.usage\<close>;
  a chunk without a truthy first choice is skipped after its usage has been read. When
  \<open>handleDelta\<close> throws, the \<open>catch\<close> drops its events and skips the finish reason, and
  the assignments made before the exception stay.
\<close>

definition chatStep ::
  "string \<Rightarrow> string \<Rightarrow> json \<Rightarrow> chatState \<Rightarrow> sseEvent list \<times> chatState" where
  "chatStep messageId model chunk s =
     (if chunk = JNull then ([], s)
      else
        let s1 = (case getField chunk ''usage'' of
                    Some u \<Rightarrow> if truthy u then s\<lparr>usage := chunkUsage u\<rparr> else s
                  | None \<Rightarrow> s)
        in case chunkChoice chunk of
             None \<Rightarrow> ([], s1)
           | Some choice \<Rightarrow>
               if \<not> truthy choice then ([], s1)
               else
                 case handleDelta messageId model (choiceDelta choice) s1 of
                   (None, s2) \<Rightarrow> ([], s2)
                 | (Some events, s2) \<Rightarrow>
                     (events,
                      case getField choice ''finish_reason'' of
                        Some fr \<Rightarrow>
                          if truthy fr then s2\<lparr>stopReason := finishReason fr\<rparr> else s2
                      | None \<Rightarrow> s2))"

definition finishChat :: "string \<Rightarrow> string \<Rightarrow> chatState \<Rightarrow> sseEvent list" where
  "finishChat messageId model s =
     (if \<not> hasEmittedStart s then
        [message_start messageId model,
         content_block_start (blockIndex s) emptyTextBlock,
         content_block_delta (blockIndex s) (textDelta (JStr [])),
         content_block_stop (blockIndex s)]
      else if currentBlockType s \<noteq> None then [content_block_stop (blockIndex s)]
      else [])
     @ [message_delta (stopReason s) (usage s), message_stop]"

definition streamOpenAIChat :: "string \<Rightarrow> string \<Rightarrow> json list \<Rightarrow> sseEvent list" where
  "streamOpenAIChat messageId model chunks =
     (let (out, s) = runEvents (chatStep messageId model) chunks initialChatState
      in out @ finishChat messageId model s)"

section \<open>Specification vocabulary for the stream re-encoders\<close>

text \<open>Recognisers of emitted events: a \<open>message_start\<close>, and the start of a tool-call block.\<close>

fun isMessageStart :: "sseEvent \<Rightarrow> bool" where
  "isMessageStart (message_start messageId model) = True"
| "isMessageStart _ = False"

fun isToolStart :: "sseEvent \<Rightarrow> bool" where
  "isToolStart (content_block_start i block) = (getField block ''type'' = Some (JStr ''tool_use''))"
| "isToolStart _ = False"



text \<open>The stop reason on the \<open>message_delta\<close> that precedes the closing \<open>message_stop\<close>.\<close>

definition finalStopReason :: "sseEvent list \<Rightarrow> string option" where
  "finalStopReason out =
     (case rev out of
        message_stop # message_delta reason u # front \<Rightarrow> Some reason
      | _ \<Rightarrow> None)"

text \<open>An output that begins with the \<open>message_start\<close> and has no other.\<close>

definition startedOnce :: "string \<Rightarrow> string \<Rightarrow> sseEvent list \<Rightarrow> bool" where
  "startedOnce messageId model out =
     (case out of
        ev # rest \<Rightarrow> ev = message_start messageId model \<and> \<not> list_ex isMessageStart rest
      | [] \<Rightarrow> False)"

text \<open>
  Chunks of Protocol C. A tool call is well formed when it is not null and its
  \<open>function.arguments\<close>, when truthy, can be converted to a string (the wire protocol makes
  the tool call an object and its arguments a string); a delta is well formed when the
  entries of its \<open>tool_calls\<close> array are. A delta has content when its \<open>content\<close> is truthy
  or its \<open>tool_calls\<close> array is not empty. A chunk carries content, or is well formed,
  according to the delta of its first choice; \<open>chunkFinishReason\<close> is the truthy
  \<open>finish_reason\<close> of that choice, and \<open>hasNoChoice\<close> holds of a chunk that the loop skips
  (a usage-only chunk, for instance).
\<close>

definition toolCallWellFormed :: "json \<Rightarrow> bool" where
  "toolCallWellFormed toolCall =
     (toolCall \<noteq> JNull \<and>
      (case optionalChain (getField toolCall ''function'') ''arguments'' of
         Some argsDelta \<Rightarrow> truthy argsDelta \<longrightarrow> stringConvertible argsDelta
       | None \<Rightarrow> True))"

definition deltaWellFormed :: "json \<Rightarrow> bool" where
  "deltaWellFormed d =
     (case getField d ''tool_calls'' of
        Some (JArr toolCalls) \<Rightarrow> list_all toolCallWellFormed toolCalls
      | _ \<Rightarrow> True)"

definition deltaHasContent :: "json \<Rightarrow> bool" where
  "deltaHasContent d =
     (truthyOpt (getField d ''content'') \<or>
      (case getField d ''tool_calls'' of Some (JArr toolCalls) \<Rightarrow> toolCalls \<noteq> [] | _ \<Rightarrow> False))"


definition wellFormedChunk :: "json \<Rightarrow> bool" where
  "wellFormedChunk chunk =
     (case chunkChoice chunk of
        None \<Rightarrow> True
      | Some choice \<Rightarrow> deltaWellFormed (choiceDelta choice))"

definition chunkFinishReason :: "json \<Rightarrow> json option" where
  "chunkFinishReason chunk =
     (case chunkChoice chunk of
        None \<Rightarrow> None
      | Some choice \<Rightarrow>
          if truthy choice \<and> truthyOpt (getField choice ''finish_reason'')
          then getField choice ''finish_reason'' else None)"

definition hasNoChoice :: "json \<Rightarrow> bool" where
  "hasNoChoice chunk = (case chunkChoice chunk of None \<Rightarrow> True | Some choice \<Rightarrow> \<not> truthy choice)"

text \<open>The state before anything has been emitted.\<close>

definition idle :: "'a streamState_scheme \<Rightarrow> bool" where
  "idle s = (\<not> hasEmittedStart s \<and> currentBlockType s = None \<and> blockIndex s = 0)"

section \<open>Accounts and rate limits (account-rotation/rate-limits.js)\<close>

text \<open>
  An account with the members that the rotation code reads or writes. A missing
  \<open>isInvalid\<close> is falsy; \<open>enabled\<close> disables the account only when it is the boolean
  \<open>false\<close> (\<open>None\<close> stands for a missing member); \<open>cooldownUntil\<close> and \<open>lastUsed\<close> are a
  time in milliseconds or null or missing (\<open>None\<close>). \<open>modelRateLimits\<close> maps a model id to
  its entry; a missing map reads like the empty one. An entry has the members that
  \<open>markRateLimited\<close> and \<open>clearExpiredLimits\<close> write: a flag and two numbers that are null
  after a sweep. Every \<open>Date.now()\<close> of one call is the argument \<open>now\<close>: the clock does not
  advance inside a call.
\<close>

record rateLimit =
  isRateLimited :: bool
  resetTime :: "int option"
  actualResetMs :: "int option"

record account =
  email :: string
  isInvalid :: bool
  enabled :: "bool option"
  cooldownUntil :: "int option"
  consecutiveFailures :: nat
  modelRateLimits :: "(string \<times> rateLimit) list"
  lastUsed :: "int option"

text \<open>The number that a comparison or subtraction makes of \<open>resetTime\<close>: null counts as 0.\<close>

definition toNumber :: "int option \<Rightarrow> int" where
  "toNumber t = (case t of None \<Rightarrow> 0 | Some n \<Rightarrow> n)"

definition isAccountCoolingDown :: "account \<Rightarrow> int \<Rightarrow> bool" where
  "isAccountCoolingDown a now =
     (case cooldownUntil a of
        None \<Rightarrow> False
      | Some t \<Rightarrow> if t = 0 then False else t > now)"

definition getCooldownRemaining :: "account \<Rightarrow> int \<Rightarrow> int" where
  "getCooldownRemaining a now =
     (case cooldownUntil a of
        None \<Rightarrow> 0
      | Some t \<Rightarrow>
          if t = 0 then 0
          else let remaining = t - now in if remaining > 0 then remaining else 0)"

definition isAllRateLimited :: "account list \<Rightarrow> string \<Rightarrow> int \<Rightarrow> bool" where
  "isAllRateLimited accounts modelId now =
     (if length accounts = 0 then True
      else list_all
             (\<lambda>a. case map_of (modelRateLimits a) modelId of
                     None \<Rightarrow> False
                   | Some rl \<Rightarrow> isRateLimited rl \<and> toNumber (resetTime rl) > now)
             accounts)"

definition getAvailableAccounts :: "account list \<Rightarrow> string \<Rightarrow> int \<Rightarrow> account list" where
  "getAvailableAccounts accounts modelId now =
     filter
       (\<lambda>a. if isInvalid a then False
             else if isAccountCoolingDown a now then False
             else case map_of (modelRateLimits a) modelId of
                    None \<Rightarrow> True
                  | Some rl \<Rightarrow> \<not> isRateLimited rl \<or> toNumber (resetTime rl) \<le> now)
       accounts"

text \<open>
  \<open>clearExpiredLimits\<close>: the sweep over the entries of one account, with the count of
  cleared entries, and the sweep over all accounts.
\<close>

fun clearExpiredEntries :: "(string \<times> rateLimit) list \<Rightarrow> int \<Rightarrow> (string \<times> rateLimit) list \<times> nat" where
  "clearExpiredEntries [] now = ([], 0)"
| "clearExpiredEntries ((modelId, rl) # rest) now =
     (let (rest', n) = clearExpiredEntries rest now in
      if isRateLimited rl \<and> toNumber (resetTime rl) \<le> now
      then ((modelId, \<lparr>isRateLimited = False, resetTime = None, actualResetMs = None\<rparr>) # rest',
            n + 1)
      else ((modelId, rl) # rest', n))"

fun clearExpiredLimits :: "account list \<Rightarrow> int \<Rightarrow> account list \<times> nat" where
  "clearExpiredLimits [] now = ([], 0)"
| "clearExpiredLimits (a # rest) now =
     (let (limits, n) = clearExpiredEntries (modelRateLimits a) now;
          (rest', m) = clearExpiredLimits rest now
      in (a\<lparr>modelRateLimits := limits\<rparr> # rest', n + m))"

text \<open>
  \<open>getMinWaitTimeMs\<close>. \<open>minWait\<close> starts as \<open>Infinity\<close>, which is \<open>None\<close>; the loop skips
  invalid accounts and lowers \<open>minWait\<close> to a positive cooldown remainder and to the
  remaining time of an active rate limit.
\<close>

definition below :: "int \<Rightarrow> int option \<Rightarrow> bool" where
  "below x minWait = (case minWait of None \<Rightarrow> True | Some m \<Rightarrow> x < m)"

fun minWaitLoop :: "account list \<Rightarrow> string \<Rightarrow> int \<Rightarrow> int option \<Rightarrow> int option" where
  "minWaitLoop [] modelId now minWait = minWait"
| "minWaitLoop (a # rest) modelId now minWait =
     (if isInvalid a then minWaitLoop rest modelId now minWait
      else
        let cooldownRemaining = getCooldownRemaining a now;
            minWait1 = (if cooldownRemaining > 0 \<and> below cooldownRemaining minWait
                        then Some cooldownRemaining else minWait);
            minWait2 =
              (case map_of (modelRateLimits a) modelId of
                 None \<Rightarrow> minWait1
               | Some rl \<Rightarrow>
                   if isRateLimited rl \<and> toNumber (resetTime rl) > now then
                     (let waitTime = toNumber (resetTime rl) - now in
                      if below waitTime minWait1 then Some waitTime else minWait1)
                   else minWait1)
        in minWaitLoop rest modelId now minWait2)"

definition getMinWaitTimeMs :: "account list \<Rightarrow> string \<Rightarrow> int \<Rightarrow> int" where
  "getMinWaitTimeMs accounts modelId now =
     (if length accounts = 0 then 0
      else if length (getAvailableAccounts accounts modelId now) > 0 then 0
      else case minWaitLoop accounts modelId now None of None \<Rightarrow> 0 | Some minWait \<Rightarrow> minWait)"

section \<open>Rotation strategies (account-rotation/strategies)\<close>

text \<open>
  \<open>BaseStrategy.isAccountUsable\<close>. The elements of the pool are account objects, so the
  test \<open>!account\<close> is false; an empty \<open>modelId\<close> is falsy and skips the rate-limit test.
\<close>

definition isAccountUsable :: "account \<Rightarrow> string \<Rightarrow> int \<Rightarrow> bool" where
  "isAccountUsable a modelId now =
     (if isInvalid a then False
      else if enabled a = Some False then False
      else if isAccountCoolingDown a now then False
      else case (if modelId \<noteq> [] then map_of (modelRateLimits a) modelId else None) of
             None \<Rightarrow> True
           | Some limit \<Rightarrow>
               if isRateLimited limit \<and> toNumber (resetTime limit) > now then False else True)"

definition getUsableAccounts :: "account list \<Rightarrow> string \<Rightarrow> int \<Rightarrow> (account \<times> nat) list" where
  "getUsableAccounts accounts modelId now =
     filter (\<lambda>(a, i). isAccountUsable a modelId now) (zip accounts [0 ..< length accounts])"

text \<open>
  The result \<open>{account, index, waitMs}\<close> of a selection. The returned account is the element
  of the pool at \<open>index\<close>, after its \<open>lastUsed\<close> was set; \<open>None\<close> is a null account.
\<close>

record selection =
  selected :: "account option"
  index :: int
  waitMs :: int

subsection \<open>RoundRobinStrategy\<close>

text \<open>
  The scan \<open>for (i = 0; i < accounts.length; i++)\<close> of \<open>selectAccount\<close>, from iteration
  \<open>i\<close> on: the first usable index \<open>(startIndex + i) % accounts.length\<close>, if there is one.
\<close>

function roundRobinScan :: "account list \<Rightarrow> string \<Rightarrow> int \<Rightarrow> nat \<Rightarrow> nat \<Rightarrow> nat option" where
  "roundRobinScan accounts modelId now startIndex i =
     (if i < length accounts then
        (let checkIndex = (startIndex + i) mod length accounts in
         if isAccountUsable (accounts ! checkIndex) modelId now then Some checkIndex
         else roundRobinScan accounts modelId now startIndex (i + 1))
      else None)"
  by pat_completeness auto
termination
  by (relation "measure (\<lambda>(accounts, modelId, now, startIndex, i). length accounts - i)") auto

declare roundRobinScan.simps [simp del]

text \<open>
  \<open>RoundRobinStrategy.selectAccount\<close>: the result, the new cursor and the pool after the
  call. The only assignment to an account is \<open>account.lastUsed = Date.now()\<close>.
\<close>

definition roundRobinSelect ::
  "nat \<Rightarrow> account list \<Rightarrow> string \<Rightarrow> int \<Rightarrow> selection \<times> nat \<times> account list" where
  "roundRobinSelect cursor accounts modelId now =
     (if length accounts = 0 then
        (\<lparr>selected = None, index = 0, waitMs = 0\<rparr>, cursor, accounts)
      else
        let cursor1 = (if cursor \<ge> length accounts then 0 else cursor);
            startIndex = (cursor1 + 1) mod length accounts
        in case roundRobinScan accounts modelId now startIndex 0 of
             Some checkIndex \<Rightarrow>
               (let a = (accounts ! checkIndex)\<lparr>lastUsed := Some now\<rparr> in
                (\<lparr>selected = Some a, index = int checkIndex, waitMs = 0\<rparr>, checkIndex,
                 accounts[checkIndex := a]))
           | None \<Rightarrow> (\<lparr>selected = None, index = int cursor1, waitMs = 0\<rparr>, cursor1, accounts))"

subsection \<open>StickyStrategy\<close>

definition MAX_WAIT_BEFORE_ERROR_MS :: int where
  "MAX_WAIT_BEFORE_ERROR_MS = 120000"

text \<open>\<open>#shouldWaitForAccount\<close>: \<open>None\<close> is \<open>shouldWait: false\<close>, \<open>Some waitMs\<close> is a wait.\<close>

definition shouldWaitForAccount :: "account \<Rightarrow> string \<Rightarrow> int \<Rightarrow> int option" where
  "shouldWaitForAccount a modelId now =
     (if isInvalid a then None
      else if enabled a = Some False then None
      else case (if modelId \<noteq> [] then map_of (modelRateLimits a) modelId else None) of
             None \<Rightarrow> None
           | Some limit \<Rightarrow>
               if isRateLimited limit \<and> toNumber (resetTime limit) > now then
                 (let waitMs = toNumber (resetTime limit) - now in
                  if waitMs \<le> MAX_WAIT_BEFORE_ERROR_MS then Some waitMs else None)
               else None)"

text \<open>The scan of \<open>#pickNext\<close>, which skips the current index.\<close>

function pickNextScan ::
  "account list \<Rightarrow> nat \<Rightarrow> string \<Rightarrow> int \<Rightarrow> nat \<Rightarrow> nat \<Rightarrow> nat option" where
  "pickNextScan accounts currentIndex modelId now startIndex i =
     (if i < length accounts then
        (let checkIndex = (startIndex + i) mod length accounts in
         if checkIndex = currentIndex then
           pickNextScan accounts currentIndex modelId now startIndex (i + 1)
         else if isAccountUsable (accounts ! checkIndex) modelId now then Some checkIndex
         else pickNextScan accounts currentIndex modelId now startIndex (i + 1))
      else None)"
  by pat_completeness auto
termination
  by (relation "measure (\<lambda>(accounts, currentIndex, modelId, now, startIndex, i). length accounts - i)")
     auto

declare pickNextScan.simps [simp del]

text \<open>
  \<open>StickyStrategy.selectAccount\<close>. \<open>optIndex\<close> is \<open>options.currentIndex\<close> (0 when the caller
  passes none) and \<open>ownIndex\<close> is the field \<open>this.currentIndex\<close>, which only \<open>#pickNext\<close>'s
  result changes. The optional callback \<open>onSave\<close> belongs to the caller and is not part of
  the strategy; the rotator never passes one.
\<close>

definition stickySelect ::
  "nat \<Rightarrow> int \<Rightarrow> account list \<Rightarrow> string \<Rightarrow> int \<Rightarrow> selection \<times> nat \<times> account list" where
  "stickySelect ownIndex optIndex accounts modelId now =
     (if length accounts = 0 then
        (\<lparr>selected = None, index = optIndex, waitMs = 0\<rparr>, ownIndex, accounts)
      else
        let clampedIndex = nat (max 0 (min optIndex (int (length accounts) - 1)));
            currentAccount = accounts ! clampedIndex
        in if isAccountUsable currentAccount modelId now then
             (let a = currentAccount\<lparr>lastUsed := Some now\<rparr> in
              (\<lparr>selected = Some a, index = int clampedIndex, waitMs = 0\<rparr>, ownIndex,
               accounts[clampedIndex := a]))
           else
             case (if length (getUsableAccounts accounts modelId now) > 0
                   then pickNextScan accounts clampedIndex modelId now
                          ((clampedIndex + 1) mod length accounts) 0
                   else None) of
               Some checkIndex \<Rightarrow>
                 (let a = (accounts ! checkIndex)\<lparr>lastUsed := Some now\<rparr> in
                  (\<lparr>selected = Some a, index = int checkIndex, waitMs = 0\<rparr>, checkIndex,
                   accounts[checkIndex := a]))
             | None \<Rightarrow>
                 (case shouldWaitForAccount currentAccount modelId now of
                    Some w \<Rightarrow>
                      if w \<le> MAX_WAIT_BEFORE_ERROR_MS
                      then (\<lparr>selected = None, index = int clampedIndex, waitMs = w\<rparr>, ownIndex, accounts)
                      else (\<lparr>selected = None, index = int clampedIndex, waitMs = 0\<rparr>, ownIndex, accounts)
                  | None \<Rightarrow>
                      (\<lparr>selected = None, index = int clampedIndex, waitMs = 0\<rparr>, ownIndex, accounts)))"

section \<open>Specification vocabulary for the rotation engine\<close>

text \<open>
  The order in which the round-robin scan visits the indices of a pool of \<open>n\<close> accounts:
  it starts one past the (clamped) cursor and wraps around, so the cursor's own index is
  visited last.
\<close>

definition scanOrder :: "nat \<Rightarrow> nat \<Rightarrow> nat list" where
  "scanOrder cursor n =
     map (\<lambda>k. ((if cursor \<ge> n then 0 else cursor) + 1 + k) mod n) [0 ..< n]"

text \<open>
  Two accounts that agree on every member except possibly \<open>lastUsed\<close>, and the frame of a
  selection: every account of the pool is unchanged but for \<open>lastUsed\<close>, and the pool after
  the call is the pool before it with \<open>lastUsed\<close> of the returned account set to the time
  of the call, or the same pool when no account is returned.
\<close>

definition unchangedButLastUsed :: "account \<Rightarrow> account \<Rightarrow> bool" where
  "unchangedButLastUsed a b =
     (email b = email a \<and> isInvalid b = isInvalid a \<and> enabled b = enabled a \<and>
      cooldownUntil b = cooldownUntil a \<and> consecutiveFailures b = consecutiveFailures a \<and>
      modelRateLimits b = modelRateLimits a)"

definition selectionFrame :: "account list \<Rightarrow> account list \<Rightarrow> selection \<Rightarrow> int \<Rightarrow> bool" where
  "selectionFrame accounts accounts' r now =
     (list_all2 unchangedButLastUsed accounts accounts' \<and>
      (case selected r of
         None \<Rightarrow> accounts' = accounts
       | Some a \<Rightarrow>
           0 \<le> index r \<and> nat (index r) < length accounts \<and>
           a = (accounts ! nat (index r))\<lparr>lastUsed := Some now\<rparr> \<and>
           accounts' = accounts[nat (index r) := a]))"

text \<open>
  Example accounts: one without any limit, and one that is rate-limited for a model until a
  given time.
\<close>

definition freshAccount :: "string \<Rightarrow> account" where
  "freshAccount e =
     \<lparr>email = e, isInvalid = False, enabled = None, cooldownUntil = None,
      consecutiveFailures = 0, modelRateLimits = [], lastUsed = None\<rparr>"

definition limitedAccount :: "string \<Rightarrow> string \<Rightarrow> int \<Rightarrow> int \<Rightarrow> account" where
  "limitedAccount e modelId resetMs now =
     (freshAccount e)\<lparr>modelRateLimits :=
        [(modelId, \<lparr>isRateLimited = True, resetTime = Some (now + resetMs),
                     actualResetMs = Some resetMs\<rparr>)]\<rparr>"

text \<open>
  An account is rate-limited for a model when its entry is flagged and its reset time lies
  ahead. \<open>remainingWaits\<close> lists, for the accounts that are not invalid, the positive
  remainder of a cooldown and the remaining time of an active rate limit.
\<close>

definition rateLimitedFor :: "account \<Rightarrow> string \<Rightarrow> int \<Rightarrow> bool" where
  "rateLimitedFor a modelId now =
     (case map_of (modelRateLimits a) modelId of
        None \<Rightarrow> False
      | Some rl \<Rightarrow> isRateLimited rl \<and> toNumber (resetTime rl) > now)"

fun remainingWaits :: "account list \<Rightarrow> string \<Rightarrow> int \<Rightarrow> int list" where
  "remainingWaits [] modelId now = []"
| "remainingWaits (a # rest) modelId now =
     (if isInvalid a then []
      else (if getCooldownRemaining a now > 0 then [getCooldownRemaining a now] else [])
           @ (case map_of (modelRateLimits a) modelId of
                None \<Rightarrow> []
              | Some rl \<Rightarrow>
                  if isRateLimited rl \<and> toNumber (resetTime rl) > now
                  then [toNumber (resetTime rl) - now] else []))
     @ remainingWaits rest modelId now"

text \<open>
  Lowering a running minimum (\<open>None\<close> is \<open>Infinity\<close>) by a list of waits, one at a time, as
  the loop of \<open>getMinWaitTimeMs\<close> does.
\<close>

definition lower :: "int option \<Rightarrow> int list \<Rightarrow> int option" where
  "lower minWait ws = foldl (\<lambda>mw w. if below w mw then Some w else mw) minWait ws"

section \<open>Retry orchestrator (routes/messages-route.js)\<close>

text \<open>
  The first branch of the attempt loop of \<open>handleMessages\<close>, for the value \<open>attempt\<close> of
  the loop counter. When every account is rate-limited the branch either returns the
  resource-exhausted error, without a call of \<open>sleep\<close>, or it sleeps, sweeps the expired
  limits at the time \<open>wake\<close> at which the sleep ends, decrements \<open>attempt\<close> and continues,
  whereupon the loop statement increments \<open>attempt\<close> again. \<open>SleepAndRetry\<close> carries the
  argument of \<open>sleep\<close>, the counter at the next loop test and the pool after the sweep;
  \<open>Proceed\<close> is the rest of the iteration, which asks the rotation strategy for an account.
  \<open>Math.round(minWait/1000)\<close> of a positive integer is \<open>(minWait + 500) div 1000\<close>.
\<close>

datatype gate =
    ResourceExhausted string
  | SleepAndRetry int int "account list"
  | Proceed

definition rateLimitedBranch :: "account list \<Rightarrow> string \<Rightarrow> int \<Rightarrow> int \<Rightarrow> int \<Rightarrow> gate" where
  "rateLimitedBranch accounts upstreamModel now wake attempt =
     (if isAllRateLimited accounts upstreamModel now then
        (let minWait = getMinWaitTimeMs accounts upstreamModel now in
         if minWait > MAX_WAIT_BEFORE_ERROR_MS then
           ResourceExhausted
             (''RESOURCE_EXHAUSTED: All accounts rate-limited. Wait ''
                @ digitsOf (nat ((minWait + 500) div 1000)) @ ''s'')
         else SleepAndRetry (minWait + 500) ((attempt - 1) + 1)
                (fst (clearExpiredLimits accounts wake)))
      else Proceed)"

section \<open>Request format converter (format-converter.js, direct-api.js)\<close>

text \<open>
  Two things come from outside the converter and are arguments of its model:
  \<open>stringify\<close> is \<open>JSON.stringify\<close> on a value that is not \<open>undefined\<close>, and \<open>rnd i j\<close> is
  the text that \<open>crypto.randomBytes(12).toString('hex')\<close> returns if the conversion of
  block \<open>j\<close> of message \<open>i\<close> asks for it (each block asks at most once). The signature
  caches are written by the converter and read only to decide what is written to them
  again; the value that the converter returns does not depend on them, and they are left
  out.
\<close>

subsection \<open>String conversion\<close>

text \<open>
  \<open>String(v)\<close> for an element of an array that is joined. The numeral of a number is its
  decimal numeral when the number is a safe integer (below \<open>2^53\<close> in absolute value); an
  object with a member \<open>toString\<close> of its own cannot be converted. \<open>Array.prototype.join\<close>
  turns null and \<open>undefined\<close> elements into the empty string and converts the others from
  left to right.
\<close>

definition showInt :: "int \<Rightarrow> string" where
  "showInt i = (if i < 0 then ''-'' @ digitsOf (nat (- i)) else digitsOf (nat i))"

fun jsToString :: "json \<Rightarrow> jsError + string"
  and joinComma :: "json list \<Rightarrow> jsError + string"
where
  "jsToString JNull = Inr ''null''"
| "jsToString (JBool b) = Inr (if b then ''true'' else ''false'')"
| "jsToString (JNum n) =
     (if \<bar>n\<bar> < 9007199254740992 then Inr (showInt n) else Inl OutsideModel)"
| "jsToString (JStr s) = Inr s"
| "jsToString (JArr xs) = joinComma xs"
| "jsToString (JObj kvs) =
     (if map_of kvs ''toString'' = None then Inr ''[object Object]'' else Inl TypeError)"
| "joinComma [] = Inr []"
| "joinComma [x] = (if x = JNull then Inr [] else jsToString x)"
| "joinComma (x # y # ys) =
     (case (if x = JNull then Inr [] else jsToString x) of
        Inl e \<Rightarrow> Inl e
      | Inr a \<Rightarrow>
          (case joinComma (y # ys) of
             Inl e \<Rightarrow> Inl e
           | Inr b \<Rightarrow> Inr (a @ '','' @ b)))"

definition elementString :: "json option \<Rightarrow> jsError + string" where
  "elementString v =
     (case v of None \<Rightarrow> Inr [] | Some JNull \<Rightarrow> Inr [] | Some x \<Rightarrow> jsToString x)"

fun joinWith :: "string \<Rightarrow> json option list \<Rightarrow> jsError + string" where
  "joinWith sep [] = Inr []"
| "joinWith sep [x] = elementString x"
| "joinWith sep (x # y # ys) =
     (case elementString x of
        Inl e \<Rightarrow> Inl e
      | Inr a \<Rightarrow>
          (case joinWith sep (y # ys) of
             Inl e \<Rightarrow> Inl e
           | Inr b \<Rightarrow> Inr (a @ sep @ b)))"

subsection \<open>extractSystemPrompt\<close>

text \<open>
  The result is a string or \<open>undefined\<close> (\<open>None\<close>). In an array, a null block throws at
  \<open>block.type\<close>, and a text that cannot be converted to a string throws in \<open>join\<close>.
\<close>

fun textsOfType :: "json list \<Rightarrow> jsError + json option list" where
  "textsOfType [] = Inr []"
| "textsOfType (block # rest) =
     (if block = JNull then Inl TypeError
      else case textsOfType rest of
             Inl e \<Rightarrow> Inl e
           | Inr texts \<Rightarrow>
               if getField block ''type'' = Some (JStr ''text'')
               then Inr (getField block ''text'' # texts) else Inr texts)"

definition extractSystemPrompt :: "json option \<Rightarrow> jsError + string option" where
  "extractSystemPrompt system =
     (case system of
        None \<Rightarrow> Inr None
      | Some (JStr s) \<Rightarrow> if s = [] then Inr None else Inr (Some s)
      | Some (JArr blocks) \<Rightarrow>
          (case textsOfType blocks of
             Inl e \<Rightarrow> Inl e
           | Inr textParts \<Rightarrow>
               (case joinWith [CHR 0x0A, CHR 0x0A] textParts of
                  Inl e \<Rightarrow> Inl e
                | Inr joined \<Rightarrow> if joined = [] then Inr None else Inr (Some joined)))
      | Some v \<Rightarrow> Inr None)"

subsection \<open>cleanCacheControl (thinking-utils.js)\<close>

definition cleanBlock :: "json \<Rightarrow> json" where
  "cleanBlock block =
     (case block of
        JObj kvs \<Rightarrow>
          if map_of kvs ''cache_control'' = None then block
          else JObj (filter (\<lambda>(k, v). k \<noteq> ''cache_control'') kvs)
      | _ \<Rightarrow> block)"

definition cleanMessage :: "json \<Rightarrow> json" where
  "cleanMessage message =
     (case message of
        JObj kvs \<Rightarrow>
          (case map_of kvs ''content'' of
             Some (JArr content) \<Rightarrow> JObj (AList.update ''content'' (JArr (map cleanBlock content)) kvs)
           | _ \<Rightarrow> message)
      | _ \<Rightarrow> message)"

definition cleanCacheControl :: "json \<Rightarrow> json" where
  "cleanCacheControl messages =
     (case messages of JArr msgs \<Rightarrow> JArr (map cleanMessage msgs) | _ \<Rightarrow> messages)"

subsection \<open>convertUserContent and convertAssistantContentToOpenAI\<close>

text \<open>
  \<open>toOpenAIToolId\<close> on a member of a block: a falsy value takes the random fallback, a
  string goes through the codec, and any other value has no \<open>startsWith\<close> method.
\<close>

definition toolIdOf :: "string \<Rightarrow> json option \<Rightarrow> jsError + string" where
  "toolIdOf r ident =
     (case ident of
        None \<Rightarrow> Inr (toOpenAIToolId r None)
      | Some (JStr s) \<Rightarrow> Inr (toOpenAIToolId r (Some s))
      | Some v \<Rightarrow> if truthy v then Inl TypeError else Inr (toOpenAIToolId r None))"

text \<open>
  The output of a tool result: the content when it is a string, the texts of its text parts
  joined by a line feed when it is an array (a null part throws, and so does a text that
  cannot be converted to a string), and otherwise \<open>JSON.stringify(block.content)\<close>, which is
  \<open>undefined\<close> for a missing content.
\<close>

definition toolResultOutput :: "(json \<Rightarrow> string) \<Rightarrow> json option \<Rightarrow> jsError + string option" where
  "toolResultOutput stringify content =
     (case content of
        None \<Rightarrow> Inr None
      | Some (JStr s) \<Rightarrow> Inr (Some s)
      | Some (JArr parts) \<Rightarrow>
          (case textsOfType parts of
             Inl e \<Rightarrow> Inl e
           | Inr texts \<Rightarrow>
               (case joinWith [CHR 0x0A] texts of
                  Inl e \<Rightarrow> Inl e
                | Inr joined \<Rightarrow> Inr (Some joined)))
      | Some v \<Rightarrow> Inr (Some (stringify v)))"

definition errorPrefixed :: "string option \<Rightarrow> string" where
  "errorPrefixed out = ''Error: '' @ (case out of None \<Rightarrow> ''undefined'' | Some s \<Rightarrow> s)"

text \<open>
  The loop of \<open>convertUserContent\<close> over a content array, from block \<open>j\<close> of message
  \<open>i\<close> on: the text parts (an element may be \<open>undefined\<close>) and the tool results.
\<close>

fun userBlocks ::
  "(json \<Rightarrow> string) \<Rightarrow> (nat \<Rightarrow> nat \<Rightarrow> string) \<Rightarrow> nat \<Rightarrow> nat \<Rightarrow> json list
     \<Rightarrow> jsError + (json option list \<times> json list)" where
  "userBlocks stringify rnd i j [] = Inr ([], [])"
| "userBlocks stringify rnd i j (block # rest) =
     (if block = JNull then Inl TypeError
      else if getField block ''type'' = Some (JStr ''text'') then
        (case userBlocks stringify rnd i (j + 1) rest of
           Inl e \<Rightarrow> Inl e
         | Inr (textParts, toolResults) \<Rightarrow> Inr (getField block ''text'' # textParts, toolResults))
      else if getField block ''type'' = Some (JStr ''tool_result'') then
        (case toolResultOutput stringify (getField block ''content'') of
           Inl e \<Rightarrow> Inl e
         | Inr outputContent \<Rightarrow>
             (case toolIdOf (rnd i j) (getField block ''tool_use_id'') of
                Inl e \<Rightarrow> Inl e
              | Inr callId \<Rightarrow>
                  (case userBlocks stringify rnd i (j + 1) rest of
                     Inl e \<Rightarrow> Inl e
                   | Inr (textParts, toolResults) \<Rightarrow>
                       Inr (textParts,
                            JObj ([(''type'', JStr ''function_call_output''),
                                   (''call_id'', JStr callId)]
                                  @ (if truthyOpt (getField block ''is_error'')
                                     then [(''output'', JStr (errorPrefixed outputContent))]
                                     else (case outputContent of
                                             None \<Rightarrow> []
                                           | Some s \<Rightarrow> [(''output'', JStr s)])))
                            # toolResults))))
      else userBlocks stringify rnd i (j + 1) rest)"

definition convertUserContent ::
  "(json \<Rightarrow> string) \<Rightarrow> (nat \<Rightarrow> nat \<Rightarrow> string) \<Rightarrow> nat \<Rightarrow> json option
     \<Rightarrow> jsError + (json option list \<times> json list)" where
  "convertUserContent stringify rnd i content =
     (case content of
        Some (JStr s) \<Rightarrow> Inr ([Some (JStr s)], [])
      | Some (JArr blocks) \<Rightarrow> userBlocks stringify rnd i 0 blocks
      | _ \<Rightarrow> Inr ([], []))"

text \<open>
  The loop of \<open>convertAssistantContentToOpenAI\<close>: the text parts and the function calls.
  A thinking block leaves nothing in the result; a block of another type is skipped. The
  length test on the signature of a thinking block, and on the \<open>thoughtSignature\<close> of a
  tool_use block, is the one of \<open>restoreThinkingSignatures\<close>; its outcome only decides what
  is cached, but its evaluation can fail. A signature read from the cache has passed the
  same test when it was stored.
\<close>

fun assistantBlocks ::
  "(json \<Rightarrow> string) \<Rightarrow> (nat \<Rightarrow> nat \<Rightarrow> string) \<Rightarrow> nat \<Rightarrow> nat \<Rightarrow> json list
     \<Rightarrow> jsError + (json option list \<times> json list)" where
  "assistantBlocks stringify rnd i j [] = Inr ([], [])"
| "assistantBlocks stringify rnd i j (block # rest) =
     (if block = JNull then Inl TypeError
      else if getField block ''type'' = Some (JStr ''text'') then
        (case assistantBlocks stringify rnd i (j + 1) rest of
           Inl e \<Rightarrow> Inl e
         | Inr (textParts, toolCalls) \<Rightarrow> Inr (getField block ''text'' # textParts, toolCalls))
      else if getField block ''type'' = Some (JStr ''thinking'') then
        (case signatureLongEnough (getField block ''signature'') of
           Inl e \<Rightarrow> Inl e
         | Inr cached \<Rightarrow> assistantBlocks stringify rnd i (j + 1) rest)
      else if getField block ''type'' = Some (JStr ''tool_use'') then
        (case toolIdOf (rnd i j) (getField block ''id'') of
           Inl e \<Rightarrow> Inl e
         | Inr openAIId \<Rightarrow>
             (case signatureLongEnough (getField block ''thoughtSignature'') of
                Inl e \<Rightarrow> Inl e
              | Inr cached \<Rightarrow>
                  (case assistantBlocks stringify rnd i (j + 1) rest of
                     Inl e \<Rightarrow> Inl e
                   | Inr (textParts, toolCalls) \<Rightarrow>
                       Inr (textParts,
                            JObj ([(''type'', JStr ''function_call''), (''id'', JStr openAIId),
                                   (''call_id'', JStr openAIId)]
                                  @ optEntry ''name'' (getField block ''name'')
                                  @ (case getField block ''input'' of
                                       None \<Rightarrow> []
                                     | Some (JStr s) \<Rightarrow> [(''arguments'', JStr s)]
                                     | Some v \<Rightarrow> [(''arguments'', JStr (stringify v))]))
                            # toolCalls))))
      else assistantBlocks stringify rnd i (j + 1) rest)"

definition convertAssistantContentToOpenAI ::
  "(json \<Rightarrow> string) \<Rightarrow> (nat \<Rightarrow> nat \<Rightarrow> string) \<Rightarrow> nat \<Rightarrow> json option
     \<Rightarrow> jsError + (json option list \<times> json list)" where
  "convertAssistantContentToOpenAI stringify rnd i content =
     (case content of
        Some (JStr s) \<Rightarrow> Inr ([Some (JStr s)], [])
      | Some (JArr blocks) \<Rightarrow> assistantBlocks stringify rnd i 0 blocks
      | _ \<Rightarrow> Inr ([], []))"

subsection \<open>convertMessagesToInput\<close>

text \<open>
  The message item for the text parts of one message: none when there is no text part, the
  bare text when there is exactly one, and otherwise an array of typed parts. A member whose
  value is \<open>undefined\<close> is absent from the model of an object.
\<close>

definition messageItem :: "string \<Rightarrow> string \<Rightarrow> json option list \<Rightarrow> json list" where
  "messageItem role partType textParts =
     (if length textParts > 0 then
        [JObj ([(''type'', JStr ''message''), (''role'', JStr role)]
               @ (if length textParts = 1 then optEntry ''content'' (textParts ! 0)
                  else [(''content'',
                         JArr (map (\<lambda>t. JObj ((''type'', JStr partType) # optEntry ''text'' t))
                                 textParts))]))]
      else [])"

fun messagesLoop ::
  "(json \<Rightarrow> string) \<Rightarrow> (nat \<Rightarrow> nat \<Rightarrow> string) \<Rightarrow> nat \<Rightarrow> json list \<Rightarrow> jsError + json list" where
  "messagesLoop stringify rnd i [] = Inr []"
| "messagesLoop stringify rnd i (msg # rest) =
     (if msg = JNull then Inl TypeError
      else if getField msg ''role'' = Some (JStr ''user'') then
        (case convertUserContent stringify rnd i (getField msg ''content'') of
           Inl e \<Rightarrow> Inl e
         | Inr (textParts, toolResults) \<Rightarrow>
             (case messagesLoop stringify rnd (i + 1) rest of
                Inl e \<Rightarrow> Inl e
              | Inr items \<Rightarrow> Inr (messageItem ''user'' ''input_text'' textParts @ toolResults @ items)))
      else if getField msg ''role'' = Some (JStr ''assistant'') then
        (case (case getField msg ''content'' of
                 Some (JArr content) \<Rightarrow>
                   (case processAssistantContent (JArr content) of
                      Inl e \<Rightarrow> Inl e
                    | Inr processed \<Rightarrow> Inr (Some processed))
               | other \<Rightarrow> Inr other) of
           Inl e \<Rightarrow> Inl e
         | Inr msgContent \<Rightarrow>
             (case convertAssistantContentToOpenAI stringify rnd i msgContent of
                Inl e \<Rightarrow> Inl e
              | Inr (textParts, toolCalls) \<Rightarrow>
                  (case messagesLoop stringify rnd (i + 1) rest of
                     Inl e \<Rightarrow> Inl e
                   | Inr items \<Rightarrow>
                       Inr (messageItem ''assistant'' ''output_text'' textParts @ toolCalls @ items))))
      else messagesLoop stringify rnd (i + 1) rest)"

definition convertMessagesToInput ::
  "(json \<Rightarrow> string) \<Rightarrow> (nat \<Rightarrow> nat \<Rightarrow> string) \<Rightarrow> json \<Rightarrow> jsError + json" where
  "convertMessagesToInput stringify rnd messages =
     (case messages of
        JArr msgs \<Rightarrow>
          (case messagesLoop stringify rnd 0 msgs of Inl e \<Rightarrow> Inl e | Inr items \<Rightarrow> Inr (JArr items))
      | _ \<Rightarrow> Inr (JArr []))"

subsection \<open>convertAnthropicToolsToOpenAI\<close>

fun toolsLoop :: "json list \<Rightarrow> jsError + json list" where
  "toolsLoop [] = Inr []"
| "toolsLoop (tool # rest) =
     (if tool = JNull then Inl TypeError
      else case toolsLoop rest of
             Inl e \<Rightarrow> Inl e
           | Inr converted \<Rightarrow>
               Inr (JObj ([(''type'', JStr ''function'')]
                          @ optEntry ''name'' (getField tool ''name'')
                          @ [(''description'',
                              (case getField tool ''description'' of
                                 Some d \<Rightarrow> if truthy d then d else JStr []
                               | None \<Rightarrow> JStr [])),
                             (''parameters'',
                              sanitizeSchema
                                (case getField tool ''input_schema'' of
                                   Some schema \<Rightarrow>
                                     if truthy schema then schema
                                     else JObj [(''type'', JStr ''object'')]
                                 | None \<Rightarrow> JObj [(''type'', JStr ''object'')]))])
                    # converted))"

definition convertAnthropicToolsToOpenAI :: "json \<Rightarrow> jsError + json" where
  "convertAnthropicToolsToOpenAI tools =
     (case tools of
        JArr ts \<Rightarrow> (case toolsLoop ts of Inl e \<Rightarrow> Inl e | Inr converted \<Rightarrow> Inr (JArr converted))
      | _ \<Rightarrow> Inr (JArr []))"

subsection \<open>convertAnthropicToResponsesAPI and the request of sendMessage\<close>

text \<open>
  Destructuring a null request throws. The members of the result are evaluated in the order
  of the source: the messages are cleaned, the system prompt is extracted, then the object
  literal is built (model, input, tools, tool choice and the constant members), and last
  \<open>instructions\<close> is assigned.
\<close>

definition convertAnthropicToResponsesAPI ::
  "(json \<Rightarrow> string) \<Rightarrow> (nat \<Rightarrow> nat \<Rightarrow> string) \<Rightarrow> json \<Rightarrow> jsError + json" where
  "convertAnthropicToResponsesAPI stringify rnd anthropicRequest =
     (if anthropicRequest = JNull then Inl TypeError
      else
        let cleanedMessages =
              cleanCacheControl
                (case getField anthropicRequest ''messages'' of
                   Some m \<Rightarrow> if truthy m then m else JArr []
                 | None \<Rightarrow> JArr [])
        in case extractSystemPrompt (getField anthropicRequest ''system'') of
             Inl e \<Rightarrow> Inl e
           | Inr instructions \<Rightarrow>
               (case convertMessagesToInput stringify rnd cleanedMessages of
                  Inl e \<Rightarrow> Inl e
                | Inr input \<Rightarrow>
                    (case (case getField anthropicRequest ''tools'' of
                             Some tools \<Rightarrow>
                               if truthy tools then convertAnthropicToolsToOpenAI tools
                               else Inr (JArr [])
                           | None \<Rightarrow> Inr (JArr [])) of
                       Inl e \<Rightarrow> Inl e
                     | Inr tools \<Rightarrow>
                         Inr (JObj
                           [(''model'',
                             (case getField anthropicRequest ''model'' of
                                Some m \<Rightarrow> if truthy m then m else JStr ''gpt-5.2-codex''
                              | None \<Rightarrow> JStr ''gpt-5.2-codex'')),
                            (''input'', input),
                            (''tools'', tools),
                            (''tool_choice'',
                             (case getField anthropicRequest ''tool_choice'' of
                                Some c \<Rightarrow> if truthy c then c else JStr ''auto''
                              | None \<Rightarrow> JStr ''auto'')),
                            (''parallel_tool_calls'', JBool True),
                            (''store'', JBool False),
                            (''stream'', JBool True),
                            (''include'', JArr []),
                            (''instructions'',
                             (case instructions of Some s \<Rightarrow> JStr s | None \<Rightarrow> JStr []))]))))"

text \<open>
  \<open>sendMessage\<close> builds its request from \<open>{...anthropicRequest, stream: false}\<close>. Spreading
  copies the own enumerable members: those of an object, the indexed elements of an array,
  the indexed characters of a string, and nothing for another value.
\<close>

fun ownEntries :: "json \<Rightarrow> (string \<times> json) list" where
  "ownEntries (JObj kvs) = kvs"
| "ownEntries (JArr xs) = zip (map digitsOf [0 ..< length xs]) xs"
| "ownEntries (JStr s) = zip (map digitsOf [0 ..< length s]) (map (\<lambda>c. JStr [c]) s)"
| "ownEntries v = []"

definition sendMessageRequest ::
  "(json \<Rightarrow> string) \<Rightarrow> (nat \<Rightarrow> nat \<Rightarrow> string) \<Rightarrow> json \<Rightarrow> jsError + json" where
  "sendMessageRequest stringify rnd anthropicRequest =
     convertAnthropicToResponsesAPI stringify rnd
       (JObj (AList.update ''stream'' (JBool False) (ownEntries anthropicRequest)))"

section \<open>Specification vocabulary for the request converter\<close>

text \<open>
  The three constant members of a Protocol-B request, and a member that is an array or a
  string.
\<close>

definition fixedMembers :: "json \<Rightarrow> bool" where
  "fixedMembers request =
     (getField request ''store'' = Some (JBool False) \<and>
      getField request ''stream'' = Some (JBool True) \<and>
      getField request ''parallel_tool_calls'' = Some (JBool True))"

definition arrayMember :: "json \<Rightarrow> string \<Rightarrow> bool" where
  "arrayMember v k = (case getField v k of Some (JArr xs) \<Rightarrow> True | _ \<Rightarrow> False)"

definition stringMember :: "json \<Rightarrow> string \<Rightarrow> bool" where
  "stringMember v k = (case getField v k of Some (JStr s) \<Rightarrow> True | _ \<Rightarrow> False)"

text \<open>
  The shape of a Protocol-A request. A request is an object. Its \<open>system\<close>, when an array,
  holds objects whose \<open>text\<close> is a string when present; its \<open>tools\<close>, when an array, holds
  objects. In a user message with an array content, every block is an object whose
  \<open>tool_use_id\<close> is a string when present and whose \<open>content\<close>, when it is an array, holds
  objects whose \<open>text\<close> is a string when present. In an assistant message with an array
  content, every block is an assistant block whose \<open>id\<close> and \<open>thoughtSignature\<close> are
  strings when present.
\<close>

fun isObject :: "json \<Rightarrow> bool" where
  "isObject (JObj kvs) = True"
| "isObject _ = False"

definition blocksIfArray :: "(json \<Rightarrow> bool) \<Rightarrow> json option \<Rightarrow> bool" where
  "blocksIfArray P v = (case v of Some (JArr blocks) \<Rightarrow> list_all P blocks | _ \<Rightarrow> True)"

definition textPart :: "json \<Rightarrow> bool" where
  "textPart part = (isObject part \<and> stringOrAbsent (getField part ''text''))"

definition userBlock :: "json \<Rightarrow> bool" where
  "userBlock block =
     (isObject block \<and> stringOrAbsent (getField block ''tool_use_id'') \<and>
      blocksIfArray textPart (getField block ''content''))"

definition toolCallBlock :: "json \<Rightarrow> bool" where
  "toolCallBlock block =
     (assistantBlock block \<and> stringOrAbsent (getField block ''id'') \<and>
      stringOrAbsent (getField block ''thoughtSignature''))"

definition protocolAMessage :: "json \<Rightarrow> bool" where
  "protocolAMessage msg =
     (isObject msg \<and>
      (if getField msg ''role'' = Some (JStr ''user'')
       then blocksIfArray userBlock (getField msg ''content'')
       else if getField msg ''role'' = Some (JStr ''assistant'')
       then blocksIfArray toolCallBlock (getField msg ''content'')
       else True))"

definition protocolARequest :: "json \<Rightarrow> bool" where
  "protocolARequest req =
     (isObject req \<and> blocksIfArray textPart (getField req ''system'') \<and>
      blocksIfArray isObject (getField req ''tools'') \<and>
      blocksIfArray protocolAMessage (getField req ''messages''))"

section \<open>Properties of the tool-id codec\<close>

lemma startsWith_split: "startsWith s p \<Longrightarrow> \<exists>b. s = p @ b"
proof -
  assume "startsWith s p"
  then have "take (length p) s = p" by (simp add: startsWith_def)
  then have "p @ drop (length p) s = s"
    using append_take_drop_id [of "length p" s] by simp
  then have "s = p @ drop (length p) s" by (rule sym)
  then show ?thesis ..
qed

lemma toOpenAIToolId_fc: "\<exists>b. toOpenAIToolId rnd x = ''fc_'' @ b"
proof (cases x)
  case None
  then show ?thesis by (simp add: toOpenAIToolId_def)
next
  case (Some s)
  show ?thesis
  proof (cases "s \<noteq> [] \<and> startsWith s ''fc_''")
    case True
    then have eq: "toOpenAIToolId rnd x = s"
      using Some by (simp add: toOpenAIToolId_def)
    from True show ?thesis
      unfolding eq by (intro startsWith_split) simp
  next
    case False
    with Some show ?thesis by (auto simp: toOpenAIToolId_def)
  qed
qed

lemma toAnthropicToolId_of_fc:
  "toAnthropicToolId rnd (Some (''fc_'' @ b)) = ''toolu_'' @ b"
  by (simp add: toAnthropicToolId_def startsWith_def stripFc_def)

lemma toOpenAIToolId_of_toolu:
  "toOpenAIToolId rnd (Some (''toolu_'' @ b)) = ''fc_'' @ b"
  by (simp add: toOpenAIToolId_def startsWith_def stripCallOrToolu_def)

text \<open>
  C1. Whatever the identifier \<open>x\<close> is (a string, the empty string or absent, in which case
  the random suffix \<open>r1\<close> is used), with \<open>y = toOpenAIToolId(x)\<close> the result of that one
  evaluation, \<open>toOpenAIToolId(toAnthropicToolId(y))\<close> is \<open>y\<close> again; the random
  fallbacks \<open>r2\<close> and \<open>r3\<close> of the two later calls are never used.
\<close>

theorem tool_id_round_trip:
  "toOpenAIToolId r3 (Some (toAnthropicToolId r2 (Some (toOpenAIToolId r1 x))))
     = toOpenAIToolId r1 x"
proof -
  obtain b where y: "toOpenAIToolId r1 x = ''fc_'' @ b"
    using toOpenAIToolId_fc by blast
  show ?thesis
    unfolding y toAnthropicToolId_of_fc toOpenAIToolId_of_toolu ..
qed

section \<open>The trailing-unsigned-thinking trim\<close>

lemma trailingScan_takeWhile:
  "n \<le> length content \<Longrightarrow>
   trailingScan content n n = n - length (takeWhile removableBlock (rev (take n content)))"
proof (induction n)
  case 0
  then show ?case by simp
next
  case (Suc i)
  then have i: "i < length content" by simp
  have tk: "rev (take (Suc i) content) = content ! i # rev (take i content)"
    using i by (simp add: take_Suc_conv_app_nth)
  show ?case
  proof (cases "removableBlock (content ! i)")
    case True
    have "length (takeWhile removableBlock (rev (take i content))) \<le> i"
      by (metis length_rev length_take length_takeWhile_le min.cobounded2 order_trans)
    with True Suc i show ?thesis
      unfolding tk by (simp add: removableBlock_def Let_def)
  next
    case False
    then show ?thesis
      unfolding tk by (auto simp: removableBlock_def Let_def)
  qed
qed

lemma take_length_minus_takeWhile:
  "take (length xs - length (takeWhile P (rev xs))) xs = rev (dropWhile P (rev xs))"
proof -
  have "rev xs = takeWhile P (rev xs) @ dropWhile P (rev xs)" by simp
  then have "xs = rev (dropWhile P (rev xs)) @ rev (takeWhile P (rev xs))"
    by (metis rev_append rev_rev_ident)
  moreover have "length (rev (dropWhile P (rev xs))) = length xs - length (takeWhile P (rev xs))"
    by (metis (no_types) add_diff_cancel_left' length_append length_rev takeWhile_dropWhile_id)
  ultimately show ?thesis
    by (metis append_eq_conv_conj)
qed

lemma removeTrailing_dropWhile:
  "removeTrailingThinkingBlocks (JArr content) = JArr (rev (dropWhile removableBlock (rev content)))"
proof (cases "content = []")
  case True
  then show ?thesis by simp
next
  case False
  let ?e = "length content - length (takeWhile removableBlock (rev content))"
  have e: "trailingScan content (length content) (length content) = ?e"
    using trailingScan_takeWhile [of "length content" content] by simp
  have tk: "take ?e content = rev (dropWhile removableBlock (rev content))"
    by (rule take_length_minus_takeWhile)
  show ?thesis
  proof (cases "?e < length content")
    case True
    with False e tk show ?thesis by (simp add: Let_def)
  next
    case False
    then have "take ?e content = content" by simp
    with False e tk \<open>content \<noteq> []\<close> show ?thesis by (simp add: Let_def)
  qed
qed

lemma contentBlock_removable:
  "contentBlock b \<Longrightarrow> removableBlock b = unsignedThinkingBlock b"
  by (cases b)
     (auto simp: removableBlock_def unsignedThinkingBlock_def isThinkingPart_def
        hasValidSignature_def hasType_def MIN_SIGNATURE_LENGTH_def
        split: option.splits json.splits)

lemma removable_thinkingBlock:
  "removableBlock (thinkingBlock th sig) = shortOrMissing sig"
  by (cases sig)
     (auto simp: removableBlock_def thinkingBlock_def shortOrMissing_def isThinkingPart_def
        hasValidSignature_def hasType_def MIN_SIGNATURE_LENGTH_def)

lemma removable_textBlock: "\<not> removableBlock (textBlock t)"
  by (simp add: removableBlock_def textBlock_def isThinkingPart_def hasType_def)

text \<open>
  C3. On a content array of Protocol-A blocks, \<open>removeTrailingThinkingBlocks\<close> removes
  exactly the longest run, at the end of the array, of thinking or redacted_thinking blocks
  whose signature is missing or shorter than 50 characters: what is left is the array up to
  and including the last block that is not such a block (the scan stops at the first block
  from the end that is not a thinking block or is validly signed). In particular an array
  ending in a text block and two unsigned thinking blocks is cut after the text block, and
  an array ending in a text block and a thinking block signed with 60 characters is
  unchanged.
\<close>

theorem trailing_unsigned_thinking_trim:
  "(list_all contentBlock content \<longrightarrow>
      removeTrailingThinkingBlocks (JArr content)
        = JArr (rev (dropWhile unsignedThinkingBlock (rev content))))
   \<and> (shortOrMissing sig1 \<and> shortOrMissing sig2 \<longrightarrow>
      removeTrailingThinkingBlocks
          (JArr (pre @ [textBlock t, thinkingBlock th1 sig1, thinkingBlock th2 sig2]))
        = JArr (pre @ [textBlock t]))
   \<and> (length sig = 60 \<longrightarrow>
      removeTrailingThinkingBlocks (JArr (pre @ [textBlock t, thinkingBlock th (Some sig)]))
        = JArr (pre @ [textBlock t, thinkingBlock th (Some sig)]))"
proof (intro conjI impI)
  assume cb: "list_all contentBlock content"
  have "dropWhile removableBlock (rev content) = dropWhile unsignedThinkingBlock (rev content)"
  proof (rule dropWhile_cong)
    fix b assume "b \<in> set (rev content)"
    with cb have "contentBlock b" by (simp add: list_all_iff)
    then show "removableBlock b = unsignedThinkingBlock b" by (rule contentBlock_removable)
  qed simp
  then show "removeTrailingThinkingBlocks (JArr content)
        = JArr (rev (dropWhile unsignedThinkingBlock (rev content)))"
    by (simp only: removeTrailing_dropWhile)
next
  assume "shortOrMissing sig1 \<and> shortOrMissing sig2"
  then show "removeTrailingThinkingBlocks
          (JArr (pre @ [textBlock t, thinkingBlock th1 sig1, thinkingBlock th2 sig2]))
        = JArr (pre @ [textBlock t])"
    by (simp only: removeTrailing_dropWhile)
       (simp add: removable_thinkingBlock removable_textBlock)
next
  assume "length sig = 60"
  then have "\<not> removableBlock (thinkingBlock th (Some sig))"
    by (simp add: removable_thinkingBlock shortOrMissing_def)
  then show "removeTrailingThinkingBlocks (JArr (pre @ [textBlock t, thinkingBlock th (Some sig)]))
        = JArr (pre @ [textBlock t, thinkingBlock th (Some sig)])"
    by (simp only: removeTrailing_dropWhile) simp
qed

theorem trailing_unsigned_thinking_trim_witness:
  "list_all contentBlock [textBlock ''hi'', thinkingBlock ''a'' None, thinkingBlock ''b'' (Some ''short'')]
   \<and> shortOrMissing None \<and> shortOrMissing (Some ''short'')
   \<and> length (replicate 60 CHR ''s'') = 60
   \<and> removeTrailingThinkingBlocks
        (JArr [textBlock ''hi'', thinkingBlock ''a'' None, thinkingBlock ''b'' (Some ''short'')])
       = JArr [textBlock ''hi'']
   \<and> removeTrailingThinkingBlocks
        (JArr [textBlock ''hi'', thinkingBlock ''a'' (Some (replicate 60 CHR ''s''))])
       = JArr [textBlock ''hi'', thinkingBlock ''a'' (Some (replicate 60 CHR ''s''))]"
proof -
  have cb: "list_all contentBlock
     [textBlock ''hi'', thinkingBlock ''a'' None, thinkingBlock ''b'' (Some ''short'')]"
    by (simp add: textBlock_def thinkingBlock_def)
  have sm: "shortOrMissing None \<and> shortOrMissing (Some ''short'')"
    by (simp add: shortOrMissing_def)
  have len: "length (replicate 60 CHR ''s'') = 60" by simp
  note t1 = trailing_unsigned_thinking_trim
    [of "[textBlock ''hi'', thinkingBlock ''a'' None, thinkingBlock ''b'' (Some ''short'')]"
        None "Some ''short''" "[]" "''hi''" "''a''" "''b''" "replicate 60 CHR ''s''" "''a''"]
  from t1 sm have r1: "removeTrailingThinkingBlocks
        (JArr ([] @ [textBlock ''hi'', thinkingBlock ''a'' None, thinkingBlock ''b'' (Some ''short'')]))
       = JArr ([] @ [textBlock ''hi''])"
    by blast
  from t1 len have r2: "removeTrailingThinkingBlocks
        (JArr ([] @ [textBlock ''hi'', thinkingBlock ''a'' (Some (replicate 60 CHR ''s''))]))
       = JArr ([] @ [textBlock ''hi'', thinkingBlock ''a'' (Some (replicate 60 CHR ''s''))])"
    by blast
  from r1 have r1': "removeTrailingThinkingBlocks
        (JArr [textBlock ''hi'', thinkingBlock ''a'' None, thinkingBlock ''b'' (Some ''short'')])
       = JArr [textBlock ''hi'']"
    by (simp only: append_Nil)
  from r2 have r2': "removeTrailingThinkingBlocks
        (JArr [textBlock ''hi'', thinkingBlock ''a'' (Some (replicate 60 CHR ''s''))])
       = JArr [textBlock ''hi'', thinkingBlock ''a'' (Some (replicate 60 CHR ''s''))]"
    by (simp only: append_Nil)
  show ?thesis
    by (intro conjI cb len r1' r2' conjunct1 [OF sm] conjunct2 [OF sm])
qed

section \<open>The reorder invariant\<close>

lemma assistantBlock_truthy: "assistantBlock b \<Longrightarrow> truthy b"
  by (cases b) auto

lemma rank_sanitize_thinking:
  "truthy b \<Longrightarrow> thinkingTyped b \<Longrightarrow> blockRank (sanitizeAnthropicThinkingBlock b) = 0"
  by (auto simp: blockRank_def thinkingTyped_def sanitizeAnthropicThinkingBlock_def hasType_def)

lemma rank_sanitize_tool:
  "\<not> thinkingTyped b \<Longrightarrow> hasType b ''tool_use'' \<Longrightarrow> blockRank (sanitizeToolUseBlock b) = 2"
  by (auto simp: blockRank_def thinkingTyped_def sanitizeToolUseBlock_def hasType_def)

lemma rank_sanitize_text:
  "\<not> thinkingTyped b \<Longrightarrow> \<not> hasType b ''tool_use'' \<Longrightarrow> blockRank (sanitizeTextBlock b) = 1"
  by (auto simp: blockRank_def thinkingTyped_def sanitizeTextBlock_def hasType_def)

lemma reorderLoop_ranks:
  "reorderLoop content th tx tu = Inr (th', tx', tu') \<Longrightarrow>
   list_all (\<lambda>b. blockRank b = 0) th \<Longrightarrow> list_all (\<lambda>b. blockRank b = 1) tx \<Longrightarrow>
   list_all (\<lambda>b. blockRank b = 2) tu \<Longrightarrow>
   list_all (\<lambda>b. blockRank b = 0) th' \<and> list_all (\<lambda>b. blockRank b = 1) tx' \<and>
   list_all (\<lambda>b. blockRank b = 2) tu'"
proof (induction content arbitrary: th tx tu)
  case Nil
  then show ?case by simp
next
  case (Cons block rest)
  show ?case
  proof (cases "truthy block")
    case False
    with Cons.prems Cons.IH [of th tx tu] show ?thesis by simp
  next
    case True
    consider (thk) "thinkingTyped block"
      | (tool) "\<not> thinkingTyped block" "hasType block ''tool_use''"
      | (plain) "\<not> thinkingTyped block" "\<not> hasType block ''tool_use''" "hasType block ''text''"
      | (other) "\<not> thinkingTyped block" "\<not> hasType block ''tool_use''" "\<not> hasType block ''text''"
      by blast
    then show ?thesis
    proof cases
      case thk
      with True Cons.prems show ?thesis
        using Cons.IH [of "th @ [sanitizeAnthropicThinkingBlock block]" tx tu]
        by (simp add: thinkingTyped_def rank_sanitize_thinking)
    next
      case tool
      with True Cons.prems show ?thesis
        using Cons.IH [of th tx "tu @ [sanitizeToolUseBlock block]"]
        by (simp add: thinkingTyped_def rank_sanitize_tool)
    next
      case plain
      show ?thesis
      proof (cases "textIsMeaningful (getField block ''text'')")
        case (Inl e)
        with True plain Cons.prems show ?thesis by (simp add: thinkingTyped_def)
      next
        case (Inr keep)
        with True plain Cons.prems show ?thesis
          using Cons.IH [of th "tx @ [sanitizeTextBlock block]" tu] Cons.IH [of th tx tu]
          by (cases keep) (simp_all add: thinkingTyped_def rank_sanitize_text)
      qed
    next
      case other
      then have "blockRank block = 1" by (simp add: blockRank_def)
      with True other Cons.prems show ?thesis
        using Cons.IH [of th "tx @ [block]" tu]
        by (simp add: thinkingTyped_def)
    qed
  qed
qed

lemma sorted_same_rank:
  "list_all (\<lambda>b. blockRank b = c) xs \<Longrightarrow> sorted (map blockRank xs)"
  by (induction xs) (auto simp: list_all_iff)

lemma sorted_three_groups:
  assumes "list_all (\<lambda>b. blockRank b = 0) th" and "list_all (\<lambda>b. blockRank b = 1) tx"
    and "list_all (\<lambda>b. blockRank b = 2) tu"
  shows "sorted (map blockRank (th @ tx @ tu))"
proof -
  note s = assms [THEN sorted_same_rank]
  from assms show ?thesis
    by (simp add: sorted_append s) (auto simp: list_all_iff)
qed

lemma reorder_sorted:
  assumes "reorderAssistantContent (JArr content) = Inr (JArr out)"
  shows "sorted (map blockRank out)"
proof (cases "length content = 1")
  case True
  with assms have "length out = 1"
    by (auto simp: Let_def split: if_splits)
  then show ?thesis by (cases out) auto
next
  case False
  with assms obtain th tx tu where
    loop: "reorderLoop content [] [] [] = Inr (th, tx, tu)" and out: "out = th @ tx @ tu"
    by (auto split: sum.splits)
  from reorderLoop_ranks [OF loop] show ?thesis
    unfolding out by (intro sorted_three_groups) simp_all
qed

subsection \<open>What the passes preserve\<close>

lemma assistantBlock_sanitize_thinking:
  "assistantBlock b \<Longrightarrow> assistantBlock (sanitizeAnthropicThinkingBlock b)"
  by (cases b)
     (auto simp: sanitizeAnthropicThinkingBlock_def hasType_def
        thinkingTyped_def optField_def stringOrAbsent_def
        split: option.splits)

lemma assistantBlock_sanitize_tool:
  "assistantBlock b \<Longrightarrow> assistantBlock (sanitizeToolUseBlock b)"
  by (cases b)
     (auto simp: sanitizeToolUseBlock_def hasType_def
        thinkingTyped_def optField_def stringOrAbsent_def
        split: option.splits)

lemma assistantBlock_sanitize_text:
  "assistantBlock b \<Longrightarrow> assistantBlock (sanitizeTextBlock b)"
  by (cases b)
     (auto simp: sanitizeTextBlock_def hasType_def
        thinkingTyped_def optField_def stringOrAbsent_def
        split: option.splits)

lemma validlySigned_sanitize_thinking:
  "assistantBlock b \<Longrightarrow> hasType (sanitizeAnthropicThinkingBlock b) ''thinking'' \<Longrightarrow>
   \<not> hasType b ''thinking'' \<or> validlySigned b \<Longrightarrow>
   validlySigned (sanitizeAnthropicThinkingBlock b)"
  by (cases b)
     (auto simp: sanitizeAnthropicThinkingBlock_def hasType_def
        optField_def validlySigned_def
        split: option.splits json.splits if_splits)

lemma signedIfThinking_sanitize_thinking:
  "signedIfThinking b \<Longrightarrow> signedIfThinking (sanitizeAnthropicThinkingBlock b)"
  unfolding signedIfThinking_def
  using assistantBlock_sanitize_thinking validlySigned_sanitize_thinking by blast

lemma hasType_sanitize_tool:
  "hasType (sanitizeToolUseBlock b) ''thinking'' \<Longrightarrow> hasType b ''thinking''"
  by (auto simp: sanitizeToolUseBlock_def hasType_def split: if_splits)

lemma hasType_sanitize_text:
  "hasType (sanitizeTextBlock b) ''thinking'' \<Longrightarrow> hasType b ''thinking''"
  by (auto simp: sanitizeTextBlock_def hasType_def split: if_splits)

lemma validlySigned_sanitize_tool:
  "hasType b ''thinking'' \<Longrightarrow> sanitizeToolUseBlock b = b"
  by (auto simp: sanitizeToolUseBlock_def hasType_def)

lemma validlySigned_sanitize_text:
  "hasType b ''thinking'' \<Longrightarrow> sanitizeTextBlock b = b"
  by (auto simp: sanitizeTextBlock_def hasType_def)

lemma signedIfThinking_sanitize_tool:
  "signedIfThinking b \<Longrightarrow> signedIfThinking (sanitizeToolUseBlock b)"
  unfolding signedIfThinking_def
  using assistantBlock_sanitize_tool hasType_sanitize_tool validlySigned_sanitize_tool
  by metis

lemma signedIfThinking_sanitize_text:
  "signedIfThinking b \<Longrightarrow> signedIfThinking (sanitizeTextBlock b)"
  unfolding signedIfThinking_def
  using assistantBlock_sanitize_text hasType_sanitize_text validlySigned_sanitize_text
  by metis

lemma textIsMeaningful_total:
  "assistantBlock b \<Longrightarrow> \<exists>keep. textIsMeaningful (getField b ''text'') = Inr keep"
  by (cases b) (auto simp: stringOrAbsent_def split: option.splits json.splits)

lemma reorderLoop_preserves:
  assumes Q_block: "\<And>b. Q b \<Longrightarrow> assistantBlock b"
    and Q_thinking: "\<And>b. Q b \<Longrightarrow> Q (sanitizeAnthropicThinkingBlock b)"
    and Q_tool: "\<And>b. Q b \<Longrightarrow> Q (sanitizeToolUseBlock b)"
    and Q_text: "\<And>b. Q b \<Longrightarrow> Q (sanitizeTextBlock b)"
  shows "list_all Q content \<Longrightarrow> list_all Q th \<Longrightarrow> list_all Q tx \<Longrightarrow> list_all Q tu \<Longrightarrow>
   \<exists>th' tx' tu'. reorderLoop content th tx tu = Inr (th', tx', tu') \<and>
     list_all Q (th' @ tx' @ tu')"
proof (induction content arbitrary: th tx tu)
  case Nil
  then show ?case by simp
next
  case (Cons block rest)
  then have b: "Q block" and rest: "list_all Q rest" by simp_all
  from b have tr: "truthy block" by (simp add: Q_block assistantBlock_truthy)
  from b obtain keep where keep: "textIsMeaningful (getField block ''text'') = Inr keep"
    using textIsMeaningful_total Q_block by blast
  note ih = Cons.IH [OF rest]
  have 1: "\<exists>th' tx' tu'.
      reorderLoop rest (th @ [sanitizeAnthropicThinkingBlock block]) tx tu = Inr (th', tx', tu') \<and>
      list_all Q (th' @ tx' @ tu')"
    using Cons.prems b by (intro ih) (simp_all add: Q_thinking)
  have 2: "\<exists>th' tx' tu'.
      reorderLoop rest th tx (tu @ [sanitizeToolUseBlock block]) = Inr (th', tx', tu') \<and>
      list_all Q (th' @ tx' @ tu')"
    using Cons.prems b by (intro ih) (simp_all add: Q_tool)
  have 3: "\<exists>th' tx' tu'.
      reorderLoop rest th (tx @ [sanitizeTextBlock block]) tu = Inr (th', tx', tu') \<and>
      list_all Q (th' @ tx' @ tu')"
    using Cons.prems b by (intro ih) (simp_all add: Q_text)
  have 4: "\<exists>th' tx' tu'.
      reorderLoop rest th (tx @ [block]) tu = Inr (th', tx', tu') \<and>
      list_all Q (th' @ tx' @ tu')"
    using Cons.prems b by (intro ih) simp_all
  have 5: "\<exists>th' tx' tu'.
      reorderLoop rest th tx tu = Inr (th', tx', tu') \<and>
      list_all Q (th' @ tx' @ tu')"
    using Cons.prems by (intro ih) simp_all
  from tr keep 1 2 3 4 5 show ?case
    by (cases keep) (simp_all del: list_all_append)
qed

lemma reorder_preserves:
  assumes Q_block: "\<And>b. Q b \<Longrightarrow> assistantBlock b"
    and Q_thinking: "\<And>b. Q b \<Longrightarrow> Q (sanitizeAnthropicThinkingBlock b)"
    and Q_tool: "\<And>b. Q b \<Longrightarrow> Q (sanitizeToolUseBlock b)"
    and Q_text: "\<And>b. Q b \<Longrightarrow> Q (sanitizeTextBlock b)"
    and content: "list_all Q content"
  shows "\<exists>out. reorderAssistantContent (JArr content) = Inr (JArr out) \<and> list_all Q out"
proof (cases "length content = 1")
  case True
  then obtain b where c: "content = [b]" by (cases content) auto
  with content have "Q b" by simp
  with c show ?thesis by (simp add: Q_thinking)
next
  case False
  from reorderLoop_preserves [of Q, OF Q_block Q_thinking Q_tool Q_text content, of "[]" "[]" "[]"]
  obtain th tx tu where "reorderLoop content [] [] [] = Inr (th, tx, tu)"
    and "list_all Q (th @ tx @ tu)" by auto
  with False show ?thesis by simp
qed

lemma restoreLoop_signed:
  "list_all assistantBlock content \<Longrightarrow> list_all signedIfThinking filtered \<Longrightarrow>
   \<exists>out. restoreLoop content filtered = Inr out \<and> list_all signedIfThinking out"
proof (induction content arbitrary: filtered)
  case Nil
  then show ?case by simp
next
  case (Cons block rest)
  then have b: "assistantBlock block" and rest: "list_all assistantBlock rest" by simp_all
  from b have tr: "truthy block" by (rule assistantBlock_truthy)
  show ?case
  proof (cases "hasType block ''thinking''")
    case False
    with b have "signedIfThinking block" by (simp add: signedIfThinking_def)
    with Cons.prems have "list_all signedIfThinking (filtered @ [block])" by simp
    from Cons.IH [OF rest this] False show ?thesis by simp
  next
    case True
    from b obtain ok where ok: "signatureLongEnough (getField block ''signature'') = Inr ok"
      by (cases block) (auto simp: stringOrAbsent_def split: option.splits json.splits)
    show ?thesis
    proof (cases ok)
      case False
      with ok True tr Cons.IH [OF rest Cons.prems(2)] show ?thesis by simp
    next
      case yes: True
      with ok b have "validlySigned block"
        by (cases block)
           (auto simp: validlySigned_def stringOrAbsent_def MIN_SIGNATURE_LENGTH_def
              split: option.splits json.splits if_splits)
      with b have "signedIfThinking (sanitizeAnthropicThinkingBlock block)"
        by (intro signedIfThinking_sanitize_thinking) (simp add: signedIfThinking_def)
      with Cons.prems have "list_all signedIfThinking (filtered @ [sanitizeAnthropicThinkingBlock block])"
        by simp
      from Cons.IH [OF rest this] ok yes True tr show ?thesis by simp
    qed
  qed
qed

lemma removeTrailing_preserves:
  "list_all Q content \<Longrightarrow>
   \<exists>out. removeTrailingThinkingBlocks (JArr content) = JArr out \<and> list_all Q out"
  unfolding removeTrailing_dropWhile
  by (auto simp: list_all_iff dest: set_dropWhileD)

text \<open>
  The order of the blocks. For every assistant content array made of thinking,
  redacted_thinking, text and tool_use blocks, \<open>reorderAssistantContent\<close> and
  \<open>processAssistantContent\<close> return an array in which all thinking blocks come before all
  text blocks and all text blocks before all tool_use blocks; the blocks of the result are
  still assistant blocks, and in the result of \<open>processAssistantContent\<close> every block of
  type \<open>thinking\<close> carries a signature of at least 50 characters.
\<close>

lemma reorder_ordering:
  assumes "list_all assistantBlock content"
  shows "(\<exists>out. reorderAssistantContent (JArr content) = Inr (JArr out) \<and>
            sorted (map blockRank out) \<and> list_all assistantBlock out)
       \<and> (\<exists>out. processAssistantContent (JArr content) = Inr (JArr out) \<and>
            sorted (map blockRank out) \<and> list_all signedIfThinking out)"
proof
  from reorder_preserves [of assistantBlock content, OF _ assistantBlock_sanitize_thinking
      assistantBlock_sanitize_tool assistantBlock_sanitize_text assms]
  obtain out where "reorderAssistantContent (JArr content) = Inr (JArr out)"
    and "list_all assistantBlock out" by auto
  then show "\<exists>out. reorderAssistantContent (JArr content) = Inr (JArr out) \<and>
            sorted (map blockRank out) \<and> list_all assistantBlock out"
    using reorder_sorted by blast
next
  from restoreLoop_signed [OF assms, of "[]"] obtain r where
    r: "restoreLoop content [] = Inr r" and rs: "list_all signedIfThinking r" by auto
  from removeTrailing_preserves [OF rs] obtain t where
    t: "removeTrailingThinkingBlocks (JArr r) = JArr t" and ts: "list_all signedIfThinking t"
    by auto
  have sb: "\<And>b. signedIfThinking b \<Longrightarrow> assistantBlock b" by (simp add: signedIfThinking_def)
  from reorder_preserves [of signedIfThinking t, OF sb signedIfThinking_sanitize_thinking
      signedIfThinking_sanitize_tool signedIfThinking_sanitize_text ts]
  obtain out where o: "reorderAssistantContent (JArr t) = Inr (JArr out)"
    and os: "list_all signedIfThinking out" by auto
  from r t o have "processAssistantContent (JArr content) = Inr (JArr out)" by simp
  with os reorder_sorted [OF o]
  show "\<exists>out. processAssistantContent (JArr content) = Inr (JArr out) \<and>
            sorted (map blockRank out) \<and> list_all signedIfThinking out"
    by blast
qed

text \<open>
  C2. The processed sequence must never end in an unsigned thinking block, and
  \<open>removeTrailingThinkingBlocks\<close> is there to remove such a block. The code misses a case:
  for the array of a redacted_thinking block followed by an empty text block, an array of
  assistant blocks, the trim leaves the array alone because it ends in a text block, the
  reorder pass then drops the empty text block, and the processed sequence ends in a
  thinking block without signature, which the trim removes when it is run on the result.
\<close>

theorem processed_content_ends_unsigned:
  "list_all assistantBlock
     [JObj [(''type'', JStr ''redacted_thinking''), (''data'', JStr ''x'')], textBlock []]
   \<and> processAssistantContent
       (JArr [JObj [(''type'', JStr ''redacted_thinking''), (''data'', JStr ''x'')], textBlock []])
     = Inr (JArr [JObj [(''type'', JStr ''redacted_thinking''), (''data'', JStr ''x'')]])
   \<and> unsignedThinkingBlock
       (last [JObj [(''type'', JStr ''redacted_thinking''), (''data'', JStr ''x'')]])
   \<and> removeTrailingThinkingBlocks
       (JArr [JObj [(''type'', JStr ''redacted_thinking''), (''data'', JStr ''x'')]])
     = JArr []"
  by (simp add: textBlock_def thinkingTyped_def hasType_def stringOrAbsent_def
        unsignedThinkingBlock_def isThinkingPart_def hasValidSignature_def Let_def
        sanitizeAnthropicThinkingBlock_def optField_def)

section \<open>The schema sanitizer\<close>

lemma keywordFreeItems_schema: "keywordFree v \<Longrightarrow> \<not> isArray v \<Longrightarrow> keywordFreeItems v"
  by (cases v) auto

lemma keywordFreeFields_update:
  "keywordFreeFields result \<Longrightarrow> key \<noteq> ''const'' \<Longrightarrow> key \<notin> set unsupportedKeywords \<Longrightarrow>
   (key = ''properties'' \<Longrightarrow> keywordFreeMembers val) \<Longrightarrow>
   (key = ''items'' \<Longrightarrow> keywordFreeItems val) \<Longrightarrow>
   keywordFreeFields (AList.update key val result)"
  by (induction result) auto

lemma keywordFreeProps_update:
  "keywordFreeProps props \<Longrightarrow> keywordFree v \<Longrightarrow> keywordFreeProps (AList.update k v props)"
  by (induction props) auto

lemma keywordFree_finishSchema:
  "keywordFreeFields result \<Longrightarrow> keywordFree (finishSchema result)"
  by (auto simp: finishSchema_def Let_def unsupportedKeywords_def intro!: keywordFreeFields_update)

lemma keywordFreeFields_entryStep:
  assumes "keywordFreeFields result" and "keywordFree asSchema" and "keywordFreeProps members"
    and "keywordFreeList elements" and "\<not> isArray asSchema"
  shows "keywordFreeFields (entryStep key val asSchema members elements result)"
proof -
  have enum: "\<And>v. keywordFreeFields (AList.update ''enum'' v result)"
    using assms(1) by (intro keywordFreeFields_update) (simp_all add: unsupportedKeywords_def)
  have ty: "\<And>v. keywordFreeFields (AList.update ''type'' v result)"
    using assms(1) by (intro keywordFreeFields_update) (simp_all add: unsupportedKeywords_def)
  have req: "\<And>v. keywordFreeFields (AList.update ''required'' v result)"
    using assms(1) by (intro keywordFreeFields_update) (simp_all add: unsupportedKeywords_def)
  have desc: "\<And>v. keywordFreeFields (AList.update ''description'' v result)"
    using assms(1) by (intro keywordFreeFields_update) (simp_all add: unsupportedKeywords_def)
  have title: "\<And>v. keywordFreeFields (AList.update ''title'' v result)"
    using assms(1) by (intro keywordFreeFields_update) (simp_all add: unsupportedKeywords_def)
  have props: "keywordFreeFields (AList.update ''properties'' (JObj members) result)"
    using assms(1,3) by (intro keywordFreeFields_update) (simp_all add: unsupportedKeywords_def)
  have items1: "keywordFreeFields (AList.update ''items'' (JArr elements) result)"
    using assms(1,4) by (intro keywordFreeFields_update) (simp_all add: unsupportedKeywords_def)
  have items2: "keywordFreeFields (AList.update ''items'' asSchema result)"
    using assms(1,2,5)
    by (intro keywordFreeFields_update) (simp_all add: unsupportedKeywords_def keywordFreeItems_schema)
  have items3: "\<not> typeofObject val \<Longrightarrow> keywordFreeFields (AList.update ''items'' val result)"
    using assms(1)
    by (intro keywordFreeFields_update) (cases val; simp add: unsupportedKeywords_def)+
  show ?thesis
    unfolding entryStep_def
    using assms(1) enum ty req desc title props items1 items2 items3
    by (auto split: json.splits)
qed

lemma sanitizeSchema_object: "\<not> isArray (sanitizeSchema v)"
  by (cases v) (simp_all add: finishSchema_def Let_def)

lemma sanitize_keywordFree:
  "keywordFree (sanitizeSchema schema)"
  "keywordFreeFields result \<Longrightarrow> keywordFreeFields (sanitizeEntries kvs result)"
  "keywordFreeProps (sanitizeMembers val)"
  "keywordFreeProps props \<Longrightarrow> keywordFreeProps (sanitizeProperties ps props)"
  "keywordFreeProps props \<Longrightarrow> keywordFreeProps (sanitizeIndexed i xs props)"
  "keywordFreeList (sanitizeElements val')"
  "keywordFreeList (sanitizeItems items)"
proof (induction schema and kvs result and val and ps props and i xs props and val' and items
    rule: sanitizeSchema_sanitizeEntries_sanitizeMembers_sanitizeProperties_sanitizeIndexed_sanitizeElements_sanitizeItems.induct)
  case (1 kvs)
  then show ?case by (simp add: keywordFree_finishSchema)
next
  case (2 xs)
  then show ?case by (simp add: keywordFree_finishSchema)
next
  case (8 key val rest result)
  have "keywordFreeFields
      (entryStep key val (sanitizeSchema val) (sanitizeMembers val) (sanitizeElements val) result)"
    using 8 by (intro keywordFreeFields_entryStep sanitizeSchema_object) simp_all
  with 8 show ?case by simp
next
  case (16 propKey propValue rest props)
  then show ?case by (simp add: keywordFreeProps_update)
next
  case (18 i item rest props)
  then show ?case by (simp add: keywordFreeProps_update)
qed (simp_all add: unsupportedKeywords_def)

text \<open>
  C6 (as amended). The schema \<open>{type: ["string", "null"]}\<close> is sanitized to
  \<open>{type: "string"}\<close>. The schema \<open>{const: x}\<close> is sanitized to
  \<open>{enum: [x], type: "object", properties: {}}\<close>: the constant becomes a one-element
  enumeration, no \<open>const\<close> key remains, and the defaults for a schema without type are
  added. For every schema, neither \<open>const\<close> nor an unsupported keyword is a key of the
  output, recursively through \<open>properties\<close> and \<open>items\<close>.
\<close>

theorem schema_sanitizer:
  "sanitizeSchema (JObj [(''type'', JArr [JStr ''string'', JStr ''null''])])
     = JObj [(''type'', JStr ''string'')]
   \<and> sanitizeSchema (JObj [(''const'', x)])
     = JObj [(''enum'', JArr [x]), (''type'', JStr ''object''), (''properties'', JObj [])]
   \<and> keywordFree (sanitizeSchema schema)"
proof (intro conjI)
  show "sanitizeSchema (JObj [(''type'', JArr [JStr ''string'', JStr ''null''])])
     = JObj [(''type'', JStr ''string'')]"
    by (simp add: entryStep_def unsupportedKeywords_def firstNonNullType_def finishSchema_def
          truthyOpt_def)
  show "sanitizeSchema (JObj [(''const'', x)])
     = JObj [(''enum'', JArr [x]), (''type'', JStr ''object''), (''properties'', JObj [])]"
    by (simp add: entryStep_def finishSchema_def truthyOpt_def)
  show "keywordFree (sanitizeSchema schema)"
    by (rule sanitize_keywordFree)
qed

theorem schema_sanitizer_witness:
  "keywordFree (sanitizeSchema
     (JObj [(''type'', JStr ''object''),
            (''properties'', JObj [(''x'', JObj [(''type'', JStr ''string''), (''minLength'', JNum 1)])]),
            (''$schema'', JStr ''draft-07'')]))"
  using schema_sanitizer
    [of "JStr ''x''" "JObj [(''type'', JStr ''object''),
            (''properties'', JObj [(''x'', JObj [(''type'', JStr ''string''), (''minLength'', JNum 1)])]),
            (''$schema'', JStr ''draft-07'')]"]
  by blast

text \<open>
  The claim as stated fails on its second example: the output for \<open>{const: "x"}\<close> is not
  \<open>{enum: ["x"]}\<close>, since the sanitizer also fills in the type and the properties.
\<close>

theorem schema_sanitizer_counterexample:
  "sanitizeSchema (JObj [(''const'', JStr ''x'')]) \<noteq> JObj [(''enum'', JArr [JStr ''x''])]"
  by (simp add: entryStep_def finishSchema_def truthyOpt_def)

section \<open>The stream re-encoders\<close>

subsection \<open>The read loop and the Responses re-encoder\<close>








lemma runEvents_stop:
  fixes step :: "json \<Rightarrow> 'a streamState_scheme \<Rightarrow> sseEvent list \<times> 'a streamState_scheme"
  assumes R: "\<And>e s out s'. ok e \<Longrightarrow> step e s = (out, s') \<Longrightarrow>
                stopReason s' = (if list_ex isToolStart out then ''tool_use'' else stopReason s)"
  shows "list_all ok events \<Longrightarrow> runEvents step events s = (out, s') \<Longrightarrow>
         stopReason s' = (if list_ex isToolStart out then ''tool_use'' else stopReason s)"
proof (induction events arbitrary: s out s')
  case Nil
  then show ?case by simp
next
  case (Cons e rest)
  obtain o1 s1 where st: "step e s = (o1, s1)" by (cases "step e s")
  obtain o2 s2 where rn: "runEvents step rest s1 = (o2, s2)" by (cases "runEvents step rest s1")
  from Cons.prems st rn have out: "out = o1 @ o2" and s': "s' = s2" by simp_all
  from Cons.prems have oke: "ok e" and okr: "list_all ok rest" by simp_all
  from R [OF oke st] Cons.IH [OF okr rn] show ?case unfolding out s' by simp
qed

lemma itemAdded_stop:
  "itemAdded mid model item s = (out, s') \<Longrightarrow>
   stopReason s' = (if list_ex isToolStart out then ''tool_use'' else stopReason s)"
  by (auto simp: itemAdded_def Let_def toolUseBlock_def emptyTextBlock_def
      split: option.splits json.splits if_splits)

lemma responsesStep_stop:
  "responsesStep mid model e s = (out, s') \<Longrightarrow>
   stopReason s' = (if list_ex isToolStart out then ''tool_use'' else stopReason s)"
  unfolding responsesStep_def Let_def
  by (auto split: if_splits option.splits dest!: itemAdded_stop)




lemma finishStream_end:
  "\<exists>front. finishStream mid model s = front @ [message_delta (stopReason s) (usage s), message_stop]"
  by (simp add: finishStream_def)

lemma finishStream_no_tool: "\<not> list_ex isToolStart (finishStream mid model s)"
  by (simp add: finishStream_def emptyTextBlock_def)

lemma finalStopReason_end:
  "finalStopReason (front @ [message_delta r u, message_stop]) = Some r"
  by (simp add: finalStopReason_def)

lemma idle_initialState: "idle initialState" "stopReason initialState = ''end_turn''"
  by (simp_all add: idle_def initialState_def)






lemma responses_stop_reason:
  "finalStopReason (streamResponsesAPI mid model events)
     = Some (if list_ex isToolStart (streamResponsesAPI mid model events)
             then ''tool_use'' else ''end_turn'')"
proof -
  obtain out s where run: "runEvents (responsesStep mid model) events initialState = (out, s)"
    by (cases "runEvents (responsesStep mid model) events initialState")
  have ok: "list_all (\<lambda>e. True) events" by (simp add: list_all_iff)
  have "stopReason s = (if list_ex isToolStart out then ''tool_use'' else stopReason initialState)"
  proof (rule runEvents_stop [where ok = "\<lambda>e. True" and step = "responsesStep mid model"])
    fix e s out s'
    assume "responsesStep mid model e s = (out, s')"
    then show "stopReason s' = (if list_ex isToolStart out then ''tool_use'' else stopReason s)"
      by (rule responsesStep_stop)
  qed (rule ok, rule run)
  then have sr: "stopReason s = (if list_ex isToolStart out then ''tool_use'' else ''end_turn'')"
    by (simp add: idle_initialState(2))
  from finishStream_end [of mid model s] obtain front where
    fin: "finishStream mid model s = front @ [message_delta (stopReason s) (usage s), message_stop]" ..
  have "finalStopReason (streamResponsesAPI mid model events) = Some (stopReason s)"
    using run fin finalStopReason_end [of "out @ front"]
    by (simp add: streamResponsesAPI_def)
  moreover have "list_ex isToolStart (streamResponsesAPI mid model events) = list_ex isToolStart out"
    using run finishStream_no_tool [of mid model s]
    by (simp add: streamResponsesAPI_def)
  ultimately show ?thesis using sr by simp
qed


subsection \<open>The chat-completions re-encoder\<close>

lemma contentPart_props:
  assumes "contentPart mid model d s = (evs, s')"
  shows "stopReason s' = stopReason s" and "\<not> list_ex isToolStart evs"
    and "hasEmittedStart s \<Longrightarrow> hasEmittedStart s' \<and> \<not> list_ex isMessageStart evs"
    and "\<not> hasEmittedStart s \<Longrightarrow>
           (evs = [] \<and> s' = s) \<or> (hasEmittedStart s' \<and> startedOnce mid model evs)"
    and "\<not> truthyOpt (getField d ''content'') \<Longrightarrow> evs = [] \<and> s' = s"
  using assms
  by (auto simp: contentPart_def startTextBlock_def Let_def startedOnce_def emptyTextBlock_def
      truthyOpt_def split: option.splits if_splits)

lemma toolCallBody_props:
  assumes "toolCallWellFormed toolCall"
  shows "\<exists>evs s'. toolCallBody mid model toolCall s = (Some evs, s') \<and> hasEmittedStart s' \<and>
           (if hasEmittedStart s then \<not> list_ex isMessageStart evs else startedOnce mid model evs) \<and>
           stopReason s' = (if list_ex isToolStart evs then ''tool_use'' else stopReason s)"
proof -
  from assms have nn: "toolCall \<noteq> JNull" by (simp add: toolCallWellFormed_def)
  from assms have args:
    "\<And>a. optionalChain (getField toolCall ''function'') ''arguments'' = Some a \<Longrightarrow>
       truthy a \<Longrightarrow> stringConvertible a"
    by (simp add: toolCallWellFormed_def)
  show ?thesis
    using nn args
    by (auto simp: toolCallBody_def startToolBlock_def Let_def startedOnce_def toolUseBlock_def
        orElse_def split: option.splits if_splits prod.splits)
qed


lemma startedOnce_append:
  "startedOnce mid model out \<Longrightarrow> \<not> list_ex isMessageStart suffix \<Longrightarrow>
   startedOnce mid model (out @ suffix)"
  by (cases out) (simp_all add: startedOnce_def)

lemma toolCallsLoop_props:
  "list_all toolCallWellFormed toolCalls \<Longrightarrow>
   \<exists>evs s'. toolCallsLoop mid model toolCalls events s = (Some (events @ evs), s') \<and>
     (toolCalls = [] \<longrightarrow> evs = [] \<and> s' = s) \<and>
     (toolCalls \<noteq> [] \<longrightarrow> hasEmittedStart s') \<and>
     (hasEmittedStart s \<longrightarrow> hasEmittedStart s' \<and> \<not> list_ex isMessageStart evs) \<and>
     (\<not> hasEmittedStart s \<and> toolCalls \<noteq> [] \<longrightarrow> startedOnce mid model evs) \<and>
     stopReason s' = (if list_ex isToolStart evs then ''tool_use'' else stopReason s)"
proof (induction toolCalls arbitrary: events s)
  case Nil
  show ?case by simp
next
  case (Cons toolCall rest)
  then have nn: "toolCallWellFormed toolCall" and rest: "list_all toolCallWellFormed rest"
    by simp_all
  from toolCallBody_props [OF nn, of mid model s] obtain pushed s1 where
    body: "toolCallBody mid model toolCall s = (Some pushed, s1)" and st1: "hasEmittedStart s1"
    and ms1: "if hasEmittedStart s then \<not> list_ex isMessageStart pushed
              else startedOnce mid model pushed"
    and sr1: "stopReason s1 = (if list_ex isToolStart pushed then ''tool_use'' else stopReason s)"
    by blast
  from Cons.IH [OF rest, of "events @ pushed" s1] obtain evs s' where
    loop: "toolCallsLoop mid model rest (events @ pushed) s1 = (Some ((events @ pushed) @ evs), s')"
    and st': "hasEmittedStart s1 \<longrightarrow> hasEmittedStart s' \<and> \<not> list_ex isMessageStart evs"
    and sr': "stopReason s' = (if list_ex isToolStart evs then ''tool_use'' else stopReason s1)"
    by blast
  from body loop have run: "toolCallsLoop mid model (toolCall # rest) events s
      = (Some (events @ (pushed @ evs)), s')" by simp
  from st1 st' have a: "hasEmittedStart s'" and b: "\<not> list_ex isMessageStart evs" by simp_all
  have c: "hasEmittedStart s \<longrightarrow> hasEmittedStart s' \<and> \<not> list_ex isMessageStart (pushed @ evs)"
    using ms1 a b by simp
  have d: "\<not> hasEmittedStart s \<and> toolCall # rest \<noteq> [] \<longrightarrow> startedOnce mid model (pushed @ evs)"
    using ms1 b by (simp add: startedOnce_append)
  have e: "stopReason s'
      = (if list_ex isToolStart (pushed @ evs) then ''tool_use'' else stopReason s)"
    using sr1 sr' by simp
  have f: "toolCall # rest = [] \<longrightarrow> pushed @ evs = [] \<and> s' = s" by simp
  have g: "toolCall # rest \<noteq> [] \<longrightarrow> hasEmittedStart s'" using a by simp
  show ?case
    by (rule exI [of _ "pushed @ evs"], rule exI [of _ s'])
       (intro conjI run f g c d e)
qed

lemma handleDelta_props:
  assumes wf: "deltaWellFormed d"
  shows "\<exists>evs s'. handleDelta mid model d s = (Some evs, s') \<and>
     (\<not> deltaHasContent d \<longrightarrow> evs = [] \<and> s' = s) \<and>
     (hasEmittedStart s \<longrightarrow> hasEmittedStart s' \<and> \<not> list_ex isMessageStart evs) \<and>
     (\<not> hasEmittedStart s \<longrightarrow>
        (evs = [] \<and> s' = s) \<or> (hasEmittedStart s' \<and> startedOnce mid model evs)) \<and>
     stopReason s' = (if list_ex isToolStart evs then ''tool_use'' else stopReason s)"
proof -
  obtain ev1 s1 where cp: "contentPart mid model d s = (ev1, s1)"
    by (cases "contentPart mid model d s")
  note p = contentPart_props [OF cp]
  show ?thesis
  proof (cases "\<exists>toolCalls. getField d ''tool_calls'' = Some (JArr toolCalls)")
    case False
    then have hd: "handleDelta mid model d s = (Some ev1, s1)"
      using cp by (auto simp: handleDelta_def split: option.splits json.splits)
    from False have "deltaHasContent d = truthyOpt (getField d ''content'')"
      by (auto simp: deltaHasContent_def split: option.splits json.splits)
    with hd p(1) p(2) p(3) p(4) p(5) show ?thesis
      by (intro exI [of _ ev1] exI [of _ s1]) simp
  next
    case True
    then obtain toolCalls where tc: "getField d ''tool_calls'' = Some (JArr toolCalls)" by blast
    with wf have nn: "list_all toolCallWellFormed toolCalls" by (simp add: deltaWellFormed_def)
    from toolCallsLoop_props [OF nn, of mid model ev1 s1] obtain evs s' where
      loop: "toolCallsLoop mid model toolCalls ev1 s1 = (Some (ev1 @ evs), s')"
      and e0: "toolCalls = [] \<longrightarrow> evs = [] \<and> s' = s1"
      and e1: "toolCalls \<noteq> [] \<longrightarrow> hasEmittedStart s'"
      and e2: "hasEmittedStart s1 \<longrightarrow> hasEmittedStart s' \<and> \<not> list_ex isMessageStart evs"
      and e3: "\<not> hasEmittedStart s1 \<and> toolCalls \<noteq> [] \<longrightarrow> startedOnce mid model evs"
      and e4: "stopReason s' = (if list_ex isToolStart evs then ''tool_use'' else stopReason s1)"
      by blast
    from cp tc loop have hd: "handleDelta mid model d s = (Some (ev1 @ evs), s')"
      by (simp add: handleDelta_def)
    have dc: "deltaHasContent d = (truthyOpt (getField d ''content'') \<or> toolCalls \<noteq> [])"
      using tc by (simp add: deltaHasContent_def)
    have g1: "\<not> deltaHasContent d \<longrightarrow> ev1 @ evs = [] \<and> s' = s"
      using dc p(5) e0 by auto
    have g2: "hasEmittedStart s \<longrightarrow> hasEmittedStart s' \<and> \<not> list_ex isMessageStart (ev1 @ evs)"
      using p(3) e2 by auto
    have g3: "\<not> hasEmittedStart s \<longrightarrow>
        (ev1 @ evs = [] \<and> s' = s) \<or> (hasEmittedStart s' \<and> startedOnce mid model (ev1 @ evs))"
    proof
      assume ns: "\<not> hasEmittedStart s"
      from p(4) [OF ns] show "(ev1 @ evs = [] \<and> s' = s)
          \<or> (hasEmittedStart s' \<and> startedOnce mid model (ev1 @ evs))"
      proof
        assume a: "ev1 = [] \<and> s1 = s"
        show ?thesis
        proof (cases "toolCalls = []")
          case True
          with a e0 show ?thesis by simp
        next
          case False
          with a ns e1 e3 show ?thesis by simp
        qed
      next
        assume a: "hasEmittedStart s1 \<and> startedOnce mid model ev1"
        with e2 show ?thesis by (simp add: startedOnce_append)
      qed
    qed
    have g4: "stopReason s' = (if list_ex isToolStart (ev1 @ evs) then ''tool_use'' else stopReason s)"
      using p(1,2) e4 by simp
    show ?thesis
      by (rule exI [of _ "ev1 @ evs"], rule exI [of _ s']) (intro conjI hd g1 g2 g3 g4)
  qed
qed


lemma chunkChoice_null: "chunkChoice JNull = None"
  by (simp add: chunkChoice_def)

lemma chatStep_skip:
  assumes "hasNoChoice c" and "chatStep mid model c s = (out, s')"
  shows "out = []" and "stopReason s' = stopReason s" and "hasEmittedStart s' = hasEmittedStart s"
    and "currentBlockType s' = currentBlockType s" and "blockIndex s' = blockIndex s"
  using assms
  by (auto simp: chatStep_def hasNoChoice_def Let_def split: option.splits if_splits)

lemma chatStep_choice:
  assumes ch: "chunkChoice c = Some choice" and tr: "truthy choice"
    and wf: "deltaWellFormed (choiceDelta choice)"
    and st: "chatStep mid model c s = (out, s')"
  shows "\<exists>s1 s2. hasEmittedStart s1 = hasEmittedStart s \<and> currentBlockType s1 = currentBlockType s
        \<and> blockIndex s1 = blockIndex s \<and> stopReason s1 = stopReason s
        \<and> handleDelta mid model (choiceDelta choice) s1 = (Some out, s2)
        \<and> hasEmittedStart s' = hasEmittedStart s2 \<and> currentBlockType s' = currentBlockType s2
        \<and> blockIndex s' = blockIndex s2
        \<and> stopReason s' = (case getField choice ''finish_reason'' of
                             Some fr \<Rightarrow> if truthy fr then finishReason fr else stopReason s2
                           | None \<Rightarrow> stopReason s2)"
proof -
  from ch have nn: "c \<noteq> JNull" by (auto simp: chunkChoice_null)
  define s1 where "s1 = (case getField c ''usage'' of
                    Some u \<Rightarrow> if truthy u then s\<lparr>usage := chunkUsage u\<rparr> else s
                  | None \<Rightarrow> s)"
  have s1: "hasEmittedStart s1 = hasEmittedStart s" "currentBlockType s1 = currentBlockType s"
    "blockIndex s1 = blockIndex s" "stopReason s1 = stopReason s"
    by (simp_all add: s1_def split: option.splits)
  from handleDelta_props [OF wf, of mid model s1] obtain evs s2 where
    hd: "handleDelta mid model (choiceDelta choice) s1 = (Some evs, s2)" by blast
  from st nn ch tr hd have out: "out = evs"
    and s': "s' = (case getField choice ''finish_reason'' of
                     Some fr \<Rightarrow> if truthy fr then s2\<lparr>stopReason := finishReason fr\<rparr> else s2
                   | None \<Rightarrow> s2)"
    by (simp_all add: chatStep_def Let_def s1_def [symmetric])
  have "hasEmittedStart s' = hasEmittedStart s2" "currentBlockType s' = currentBlockType s2"
    "blockIndex s' = blockIndex s2"
    "stopReason s' = (case getField choice ''finish_reason'' of
                             Some fr \<Rightarrow> if truthy fr then finishReason fr else stopReason s2
                           | None \<Rightarrow> stopReason s2)"
    by (simp_all add: s' split: option.splits)
  with s1 hd out show ?thesis by blast
qed




lemma chatStep_stop:
  assumes wf: "wellFormedChunk c" and st: "chatStep mid model c s = (out, s')"
  shows "stopReason s' =
     (case chunkFinishReason c of
        Some fr \<Rightarrow> finishReason fr
      | None \<Rightarrow> if list_ex isToolStart out then ''tool_use'' else stopReason s)"
proof (cases "hasNoChoice c")
  case True
  then have "chunkFinishReason c = None"
    by (auto simp: hasNoChoice_def chunkFinishReason_def split: option.splits)
  with chatStep_skip [OF True st] show ?thesis by simp
next
  case False
  then obtain choice where ch: "chunkChoice c = Some choice" and tr: "truthy choice"
    by (auto simp: hasNoChoice_def split: option.splits)
  with wf have dw: "deltaWellFormed (choiceDelta choice)" by (simp add: wellFormedChunk_def)
  from chatStep_choice [OF ch tr dw st] obtain s1 s2 where
    a: "stopReason s1 = stopReason s"
    and hd: "handleDelta mid model (choiceDelta choice) s1 = (Some out, s2)"
    and b: "stopReason s' = (case getField choice ''finish_reason'' of
                             Some fr \<Rightarrow> if truthy fr then finishReason fr else stopReason s2
                           | None \<Rightarrow> stopReason s2)" by blast
  from handleDelta_props [OF dw, of mid model s1] hd a
  have c: "stopReason s2 = (if list_ex isToolStart out then ''tool_use'' else stopReason s)" by auto
  from ch tr b c show ?thesis
    by (auto simp: chunkFinishReason_def truthyOpt_def split: option.splits)
qed


lemma runEvents_append:
  "runEvents step (xs @ ys) s =
     (case runEvents step xs s of
        (o1, s1) \<Rightarrow> (case runEvents step ys s1 of (o2, s2) \<Rightarrow> (o1 @ o2, s2)))"
  by (induction xs arbitrary: s) (simp_all split: prod.splits)



lemma finishChat_end:
  "\<exists>front. finishChat mid model s = front @ [message_delta (stopReason s) (usage s), message_stop]"
  by (simp add: finishChat_def)

lemma finishChat_no_tool: "\<not> list_ex isToolStart (finishChat mid model s)"
  by (simp add: finishChat_def emptyTextBlock_def)

lemma idle_initialChatState: "idle initialChatState" "stopReason initialChatState = ''end_turn''"
  by (simp_all add: idle_def initialChatState_def)




lemma chat_final_stop:
  assumes "runEvents (chatStep mid model) chunks initialChatState = (out, s)"
  shows "finalStopReason (streamOpenAIChat mid model chunks) = Some (stopReason s)"
    and "list_ex isToolStart (streamOpenAIChat mid model chunks) = list_ex isToolStart out"
proof -
  from finishChat_end [of mid model s] obtain front where
    fin: "finishChat mid model s = front @ [message_delta (stopReason s) (usage s), message_stop]" ..
  show "finalStopReason (streamOpenAIChat mid model chunks) = Some (stopReason s)"
    using assms fin finalStopReason_end [of "out @ front"]
    by (simp add: streamOpenAIChat_def)
  show "list_ex isToolStart (streamOpenAIChat mid model chunks) = list_ex isToolStart out"
    using assms finishChat_no_tool [of mid model s]
    by (simp add: streamOpenAIChat_def)
qed

lemma chat_stop_without_finish_reason:
  assumes wf: "list_all wellFormedChunk chunks"
    and nf: "list_all (\<lambda>c. chunkFinishReason c = None) chunks"
  shows "finalStopReason (streamOpenAIChat mid model chunks)
     = Some (if list_ex isToolStart (streamOpenAIChat mid model chunks)
             then ''tool_use'' else ''end_turn'')"
proof -
  obtain out s where run: "runEvents (chatStep mid model) chunks initialChatState = (out, s)"
    by (cases "runEvents (chatStep mid model) chunks initialChatState")
  from wf nf have ok: "list_all (\<lambda>c. wellFormedChunk c \<and> chunkFinishReason c = None) chunks"
    by (simp add: list_all_iff)
  have "stopReason s = (if list_ex isToolStart out then ''tool_use'' else stopReason initialChatState)"
  proof (rule runEvents_stop [where ok = "\<lambda>c. wellFormedChunk c \<and> chunkFinishReason c = None"
        and step = "chatStep mid model"])
    fix e s out s'
    assume "wellFormedChunk e \<and> chunkFinishReason e = None"
      and "chatStep mid model e s = (out, s')"
    then show "stopReason s' = (if list_ex isToolStart out then ''tool_use'' else stopReason s)"
      using chatStep_stop [of e mid model s out s'] by simp
  qed (rule ok, rule run)
  with chat_final_stop [OF run] show ?thesis
    by (simp add: idle_initialChatState(2))
qed

lemma runEvents_skip:
  "list_all hasNoChoice post \<Longrightarrow> runEvents (chatStep mid model) post s = (out, s') \<Longrightarrow>
   stopReason s' = stopReason s"
proof (induction post arbitrary: s out s')
  case Nil
  then show ?case by simp
next
  case (Cons c rest)
  obtain o1 s1 where st: "chatStep mid model c s = (o1, s1)" by (cases "chatStep mid model c s")
  obtain o2 s2 where rn: "runEvents (chatStep mid model) rest s1 = (o2, s2)"
    by (cases "runEvents (chatStep mid model) rest s1")
  from Cons.prems st rn have s': "s' = s2" by simp
  from Cons.prems have "hasNoChoice c" and r: "list_all hasNoChoice rest" by simp_all
  from chatStep_skip(2) [OF this(1) st] Cons.IH [OF r rn] show ?case unfolding s' by simp
qed

lemma chat_stop_with_finish_reason:
  assumes wf: "wellFormedChunk c" and fr: "chunkFinishReason c = Some fr"
    and post: "list_all hasNoChoice post"
  shows "finalStopReason (streamOpenAIChat mid model (pre @ [c] @ post)) = Some (finishReason fr)"
proof -
  obtain o1 s1 where r1: "runEvents (chatStep mid model) pre initialChatState = (o1, s1)"
    by (cases "runEvents (chatStep mid model) pre initialChatState")
  obtain o2 s2 where r2: "chatStep mid model c s1 = (o2, s2)" by (cases "chatStep mid model c s1")
  obtain o3 s3 where r3: "runEvents (chatStep mid model) post s2 = (o3, s3)"
    by (cases "runEvents (chatStep mid model) post s2")
  from r1 r2 r3 have run: "runEvents (chatStep mid model) (pre @ [c] @ post) initialChatState
      = (o1 @ o2 @ o3, s3)"
    by (simp add: runEvents_append)
  from chatStep_stop [OF wf r2] fr have "stopReason s2 = finishReason fr" by simp
  with runEvents_skip [OF post r3] have "stopReason s3 = finishReason fr" by simp
  with chat_final_stop(1) [OF run] show ?thesis by simp
qed

subsection \<open>Chunks that make the handler throw\<close>








subsection \<open>The claims about the emitted grammar\<close>




text \<open>
  C5 (as amended). The stop reason on the final \<open>message_delta\<close> of \<open>streamResponsesAPI\<close> is
  \<open>tool_use\<close> if a tool-call block was opened during the stream and \<open>end_turn\<close> otherwise.
  For \<open>streamOpenAIChat\<close> and well-formed chunks (no entry among the tool calls of a delta
  is null, and the truthy arguments of an entry can be converted to a string) the same holds
  when no chunk carries a finish reason; when a well-formed chunk carries a finish reason and
  only chunks without choice follow it, the stop reason is \<open>tool_use\<close> for the finish reason
  \<open>tool_calls\<close> and \<open>end_turn\<close> for any other, whatever blocks were opened.
\<close>

theorem stop_reason_mapping:
  "finalStopReason (streamResponsesAPI mid model events)
     = Some (if list_ex isToolStart (streamResponsesAPI mid model events)
             then ''tool_use'' else ''end_turn'')
   \<and> (list_all wellFormedChunk chunks \<and> list_all (\<lambda>c. chunkFinishReason c = None) chunks \<longrightarrow>
        finalStopReason (streamOpenAIChat mid model chunks)
          = Some (if list_ex isToolStart (streamOpenAIChat mid model chunks)
                  then ''tool_use'' else ''end_turn''))
   \<and> (wellFormedChunk c \<and> chunkFinishReason c = Some fr \<and> list_all hasNoChoice post \<longrightarrow>
        finalStopReason (streamOpenAIChat mid model (pre @ [c] @ post))
          = Some (if fr = JStr ''tool_calls'' then ''tool_use'' else ''end_turn''))"
  using responses_stop_reason [of mid model events]
    chat_stop_without_finish_reason [of chunks mid model]
    chat_stop_with_finish_reason [of c fr post mid model pre]
  unfolding finishReason_def by blast

theorem stop_reason_mapping_witness:
  "list_all wellFormedChunk
     [JObj [(''choices'', JArr [JObj [(''delta'', JObj [(''content'', JStr ''hi'')])]])]]
   \<and> list_all (\<lambda>c. chunkFinishReason c = None)
     [JObj [(''choices'', JArr [JObj [(''delta'', JObj [(''content'', JStr ''hi'')])]])]]
   \<and> wellFormedChunk
       (JObj [(''choices'', JArr [JObj [(''delta'', JObj []), (''finish_reason'', JStr ''tool_calls'')]])])
   \<and> chunkFinishReason
       (JObj [(''choices'', JArr [JObj [(''delta'', JObj []), (''finish_reason'', JStr ''tool_calls'')]])])
       = Some (JStr ''tool_calls'')
   \<and> list_all hasNoChoice [JObj [(''usage'', JObj [])]]
   \<and> finalStopReason (streamOpenAIChat ''msg_1'' ''kimi''
        [JObj [(''choices'', JArr [JObj [(''delta'', JObj [(''content'', JStr ''hi'')])]])]])
       = Some (if list_ex isToolStart (streamOpenAIChat ''msg_1'' ''kimi''
                 [JObj [(''choices'', JArr [JObj [(''delta'', JObj [(''content'', JStr ''hi'')])]])]])
               then ''tool_use'' else ''end_turn'')
   \<and> finalStopReason (streamOpenAIChat ''msg_1'' ''kimi''
        ([] @ [JObj [(''choices'',
                 JArr [JObj [(''delta'', JObj []), (''finish_reason'', JStr ''tool_calls'')]])]]
            @ [JObj [(''usage'', JObj [])]]))
       = Some ''tool_use''"
proof -
  have a: "list_all wellFormedChunk
     [JObj [(''choices'', JArr [JObj [(''delta'', JObj [(''content'', JStr ''hi'')])]])]]"
    by (simp add: wellFormedChunk_def chunkChoice_def choiceDelta_def deltaWellFormed_def)
  have b: "list_all (\<lambda>c. chunkFinishReason c = None)
     [JObj [(''choices'', JArr [JObj [(''delta'', JObj [(''content'', JStr ''hi'')])]])]]"
    by (simp add: chunkFinishReason_def chunkChoice_def truthyOpt_def)
  have c: "wellFormedChunk
       (JObj [(''choices'', JArr [JObj [(''delta'', JObj []), (''finish_reason'', JStr ''tool_calls'')]])])"
    by (simp add: wellFormedChunk_def chunkChoice_def choiceDelta_def deltaWellFormed_def)
  have d: "chunkFinishReason
       (JObj [(''choices'', JArr [JObj [(''delta'', JObj []), (''finish_reason'', JStr ''tool_calls'')]])])
       = Some (JStr ''tool_calls'')"
    by (simp add: chunkFinishReason_def chunkChoice_def truthyOpt_def)
  have e: "list_all hasNoChoice [JObj [(''usage'', JObj [])]]"
    by (simp add: hasNoChoice_def chunkChoice_def)
  note t = stop_reason_mapping
    [of "''msg_1''" "''kimi''" "[]"
        "[JObj [(''choices'', JArr [JObj [(''delta'', JObj [(''content'', JStr ''hi'')])]])]]"
        "JObj [(''choices'', JArr [JObj [(''delta'', JObj []), (''finish_reason'', JStr ''tool_calls'')]])]"
        "JStr ''tool_calls''" "[JObj [(''usage'', JObj [])]]" "[]"]
  from t a b have f: "finalStopReason (streamOpenAIChat ''msg_1'' ''kimi''
        [JObj [(''choices'', JArr [JObj [(''delta'', JObj [(''content'', JStr ''hi'')])]])]])
       = Some (if list_ex isToolStart (streamOpenAIChat ''msg_1'' ''kimi''
                 [JObj [(''choices'', JArr [JObj [(''delta'', JObj [(''content'', JStr ''hi'')])]])]])
               then ''tool_use'' else ''end_turn'')"
    by blast
  from t c d e have g: "finalStopReason (streamOpenAIChat ''msg_1'' ''kimi''
        ([] @ [JObj [(''choices'',
                 JArr [JObj [(''delta'', JObj []), (''finish_reason'', JStr ''tool_calls'')]])]]
            @ [JObj [(''usage'', JObj [])]]))
       = Some (if JStr ''tool_calls'' = JStr ''tool_calls'' then ''tool_use'' else ''end_turn'')"
    by blast
  then have g': "finalStopReason (streamOpenAIChat ''msg_1'' ''kimi''
        ([] @ [JObj [(''choices'',
                 JArr [JObj [(''delta'', JObj []), (''finish_reason'', JStr ''tool_calls'')]])]]
            @ [JObj [(''usage'', JObj [])]]))
       = Some ''tool_use''"
    by (simp only: refl if_True)
  show ?thesis by (intro conjI a b c d e f g')
qed

text \<open>
  The claim as stated fails for the chat-completions re-encoder: a chunk that opens a
  tool-call block, followed by a chunk whose finish reason is \<open>stop\<close>, ends with the stop
  reason \<open>end_turn\<close> although a tool-call block was opened. And a chunk with the finish
  reason \<open>tool_calls\<close> whose tool calls hold a null entry ends with \<open>end_turn\<close>: the
  exception skips the finish reason.
\<close>

theorem stop_reason_mapping_counterexample:
  "list_ex isToolStart
     (streamOpenAIChat ''msg_1'' ''kimi''
        [JObj [(''choices'', JArr [JObj [(''delta'',
            JObj [(''tool_calls'', JArr [JObj [(''id'', JStr ''call_1''),
                    (''function'', JObj [(''name'', JStr ''search'')])]])])]])],
         JObj [(''choices'', JArr [JObj [(''delta'', JObj []), (''finish_reason'', JStr ''stop'')]])]])
   \<and> finalStopReason
     (streamOpenAIChat ''msg_1'' ''kimi''
        [JObj [(''choices'', JArr [JObj [(''delta'',
            JObj [(''tool_calls'', JArr [JObj [(''id'', JStr ''call_1''),
                    (''function'', JObj [(''name'', JStr ''search'')])]])])]])],
         JObj [(''choices'', JArr [JObj [(''delta'', JObj []), (''finish_reason'', JStr ''stop'')]])]])
     = Some ''end_turn''
   \<and> finalStopReason
     (streamOpenAIChat ''msg_1'' ''kimi''
        [JObj [(''choices'', JArr [JObj [(''delta'', JObj [(''tool_calls'', JArr [JNull])]),
                                          (''finish_reason'', JStr ''tool_calls'')]])]])
     = Some ''end_turn''"
  by (simp add: streamOpenAIChat_def chatStep_def chunkChoice_def choiceDelta_def handleDelta_def
        contentPart_def toolCallBody_def startToolBlock_def toolUseBlock_def optEntry_def
        orElse_def optionalChain_def initialChatState_def finishChat_def finishReason_def
        finalStopReason_def Let_def)

section \<open>The rotation engine\<close>

lemma roundRobinScan_Some:
  "roundRobinScan accounts modelId now startIndex i = Some j \<Longrightarrow>
   \<exists>k. i \<le> k \<and> k < length accounts \<and> j = (startIndex + k) mod length accounts \<and>
       isAccountUsable (accounts ! j) modelId now \<and>
       (\<forall>k'. i \<le> k' \<and> k' < k \<longrightarrow>
          \<not> isAccountUsable (accounts ! ((startIndex + k') mod length accounts)) modelId now)"
proof (induction accounts modelId now startIndex i rule: roundRobinScan.induct)
  case (1 accounts modelId now startIndex i)
  show ?case
  proof (cases "i < length accounts")
    case False
    with "1.prems" show ?thesis by (simp add: roundRobinScan.simps)
  next
    case True
    let ?c = "(startIndex + i) mod length accounts"
    show ?thesis
    proof (cases "isAccountUsable (accounts ! ?c) modelId now")
      case usable: True
      with True "1.prems" have "j = ?c" by (simp add: roundRobinScan.simps [of accounts])
      with usable True show ?thesis by (intro exI [of _ i]) auto
    next
      case unusable: False
      with True "1.prems" have "roundRobinScan accounts modelId now startIndex (i + 1) = Some j"
        by (simp add: roundRobinScan.simps [of accounts _ _ _ i])
      from "1.IH" [OF True refl unusable this] obtain k where
        k: "i + 1 \<le> k" "k < length accounts" "j = (startIndex + k) mod length accounts"
           "isAccountUsable (accounts ! j) modelId now"
           "\<forall>k'. i + 1 \<le> k' \<and> k' < k \<longrightarrow>
              \<not> isAccountUsable (accounts ! ((startIndex + k') mod length accounts)) modelId now"
        by blast
      have "\<forall>k'. i \<le> k' \<and> k' < k \<longrightarrow>
              \<not> isAccountUsable (accounts ! ((startIndex + k') mod length accounts)) modelId now"
      proof (intro allI impI)
        fix k' assume a: "i \<le> k' \<and> k' < k"
        show "\<not> isAccountUsable (accounts ! ((startIndex + k') mod length accounts)) modelId now"
        proof (cases "k' = i")
          case True
          with unusable show ?thesis by simp
        next
          case False
          with a k(5) show ?thesis by simp
        qed
      qed
      with k show ?thesis by (intro exI [of _ k]) auto
    qed
  qed
qed

lemma roundRobinScan_None:
  "roundRobinScan accounts modelId now startIndex i = None \<Longrightarrow> i \<le> k \<Longrightarrow> k < length accounts \<Longrightarrow>
   \<not> isAccountUsable (accounts ! ((startIndex + k) mod length accounts)) modelId now"
proof (induction accounts modelId now startIndex i rule: roundRobinScan.induct)
  case (1 accounts modelId now startIndex i)
  from "1.prems" have il: "i < length accounts" by simp
  let ?c = "(startIndex + i) mod length accounts"
  from il "1.prems"(1) have unusable: "\<not> isAccountUsable (accounts ! ?c) modelId now"
    by (auto simp: roundRobinScan.simps [of accounts _ _ _ i] Let_def split: if_splits)
  with il "1.prems"(1) have next_none: "roundRobinScan accounts modelId now startIndex (i + 1) = None"
    by (simp add: roundRobinScan.simps [of accounts _ _ _ i])
  show ?case
  proof (cases "k = i")
    case True
    with unusable show ?thesis by simp
  next
    case False
    with "1.prems" have "i + 1 \<le> k" by simp
    from "1.IH" [OF il refl unusable next_none this "1.prems"(3)] show ?thesis .
  qed
qed

lemma offset_covers:
  assumes "u < (n::nat)"
  shows "\<exists>k<n. (start + k) mod n = u"
proof -
  let ?k = "(u + n - start mod n) mod n"
  have "?k < n" using assms by simp
  moreover have "(start + ?k) mod n = u"
  proof -
    have "(start + ?k) mod n = (start mod n + (u + n - start mod n)) mod n"
      by (metis mod_add_eq mod_mod_trivial)
    also have "start mod n + (u + n - start mod n) = u + n"
      using assms by (simp add: less_imp_le_nat trans_le_add2)
    also have "(u + n) mod n = u" using assms by simp
    finally show ?thesis .
  qed
  ultimately show ?thesis by blast
qed

lemma offset_of_cursor:
  assumes "c < (n::nat)" and "k < n" and "((c + 1) mod n + k) mod n = c"
  shows "k = n - 1"
proof (rule ccontr)
  assume "k \<noteq> n - 1"
  with assms have k: "k + 1 < n" by simp
  have "((c + 1) mod n + k) mod n = (c + 1 + k) mod n" by (simp add: mod_add_left_eq)
  with assms have e: "(c + 1 + k) mod n = c" by simp
  show False
  proof (cases "c + 1 + k < n")
    case True
    with e show False by simp
  next
    case False
    then have "(c + 1 + k) mod n = (c + 1 + k - n) mod n" by (simp add: le_mod_geq)
    also have "\<dots> = c + 1 + k - n" using assms k by simp
    finally show False using e k False by simp
  qed
qed


lemma roundRobinScan_find:
  "roundRobinScan accounts modelId now startIndex i
     = find (\<lambda>j. isAccountUsable (accounts ! j) modelId now)
         (map (\<lambda>k. (startIndex + k) mod length accounts) [i ..< length accounts])"
proof (induction accounts modelId now startIndex i rule: roundRobinScan.induct)
  case (1 accounts modelId now startIndex i)
  show ?case
  proof (cases "i < length accounts")
    case False
    then show ?thesis by (simp add: roundRobinScan.simps [of accounts _ _ _ i])
  next
    case True
    then have upt: "[i ..< length accounts] = i # [i + 1 ..< length accounts]"
      by (simp add: upt_conv_Cons)
    show ?thesis
    proof (cases "isAccountUsable (accounts ! ((startIndex + i) mod length accounts)) modelId now")
      case usable: True
      with True show ?thesis
        unfolding upt by (simp add: roundRobinScan.simps [of accounts _ _ _ i])
    next
      case unusable: False
      from "1.IH" [OF True refl unusable] True unusable show ?thesis
        unfolding upt by (simp add: roundRobinScan.simps [of accounts _ _ _ i])
    qed
  qed
qed

lemma roundRobinSelect_find:
  assumes "roundRobinSelect cursor accounts modelId now = (r, cursor', accounts')"
    and "accounts \<noteq> []"
  shows "case find (\<lambda>j. isAccountUsable (accounts ! j) modelId now)
                (scanOrder cursor (length accounts)) of
           None \<Rightarrow> selected r = None \<and> accounts' = accounts
         | Some j \<Rightarrow>
             selected r = Some ((accounts ! j)\<lparr>lastUsed := Some now\<rparr>) \<and> index r = int j
             \<and> cursor' = j"
proof -
  let ?n = "length accounts"
  let ?c = "if cursor \<ge> ?n then 0 else cursor"
  have order: "scanOrder cursor ?n = map (\<lambda>k. ((?c + 1) mod ?n + k) mod ?n) [0 ..< ?n]"
    by (simp add: scanOrder_def mod_add_left_eq)
  have scan: "roundRobinScan accounts modelId now ((?c + 1) mod ?n) 0
      = find (\<lambda>j. isAccountUsable (accounts ! j) modelId now) (scanOrder cursor ?n)"
    unfolding order by (rule roundRobinScan_find)
  show ?thesis
  proof (cases "find (\<lambda>j. isAccountUsable (accounts ! j) modelId now) (scanOrder cursor ?n)")
    case None
    with assms scan show ?thesis
      by (auto simp: roundRobinSelect_def Let_def split: if_splits)
  next
    case (Some j)
    with assms scan show ?thesis
      by (auto simp: roundRobinSelect_def Let_def split: if_splits)
  qed
qed

lemma usable_pair:
  assumes "2 \<le> length (getUsableAccounts accounts modelId now)"
  shows "\<exists>u v. u \<noteq> v \<and> u < length accounts \<and> v < length accounts \<and>
           isAccountUsable (accounts ! u) modelId now \<and> isAccountUsable (accounts ! v) modelId now"
proof -
  let ?z = "zip accounts [0 ..< length accounts]"
  let ?xs = "getUsableAccounts accounts modelId now"
  have xs: "?xs = filter (\<lambda>(a, i). isAccountUsable a modelId now) ?z"
    by (simp add: getUsableAccounts_def)
  have "distinct (map snd ?z)" by simp
  then have "distinct (map snd ?xs)" unfolding xs by (rule distinct_map_filter)
  moreover from assms have l0: "0 < length ?xs" and l1: "1 < length ?xs" by linarith+
  ultimately have ne: "snd (?xs ! 0) \<noteq> snd (?xs ! 1)"
    by (metis One_nat_def distinct_conv_nth length_map nth_map zero_neq_one)
  have mem: "\<And>p. p \<in> set ?xs \<Longrightarrow> snd p < length accounts \<and>
      isAccountUsable (accounts ! snd p) modelId now"
  proof -
    fix p assume "p \<in> set ?xs"
    then have pz: "p \<in> set ?z" and pu: "isAccountUsable (fst p) modelId now"
      unfolding xs by (auto simp: case_prod_beta)
    from pz obtain i where "i < length ?z" and "?z ! i = p" by (auto simp: in_set_conv_nth)
    then have "fst p = accounts ! i" and "snd p = i" and "i < length accounts" by auto
    with pu show "snd p < length accounts \<and> isAccountUsable (accounts ! snd p) modelId now" by simp
  qed
  from l0 l1 have "?xs ! 0 \<in> set ?xs" and "?xs ! 1 \<in> set ?xs" by simp_all
  with mem ne show ?thesis by blast
qed

lemma never_repeats:
  assumes first: "roundRobinSelect cursor accounts1 modelId now1 = (r1, cursor1, accounts1')"
    and sel1: "selected r1 \<noteq> None"
    and second: "roundRobinSelect cursor1 accounts2 modelId now2 = (r2, cursor2, accounts2')"
    and two: "2 \<le> length (getUsableAccounts accounts2 modelId now2)"
  shows "selected r2 \<noteq> None \<and> index r2 \<noteq> index r1"
proof -
  let ?n = "length accounts2"
  let ?P = "\<lambda>j. isAccountUsable (accounts2 ! j) modelId now2"
  from sel1 first have c1: "index r1 = int cursor1"
    by (auto simp: roundRobinSelect_def Let_def split: if_splits option.splits)
  from usable_pair [OF two] obtain u v where uv: "u \<noteq> v" "u < ?n" "v < ?n" "?P u" "?P v" by blast
  then have ne: "accounts2 \<noteq> []" by auto
  let ?c = "if cursor1 \<ge> ?n then 0 else cursor1"
  let ?start = "(?c + 1) mod ?n"
  have sel: "roundRobinSelect cursor1 accounts2 modelId now2 =
      (case roundRobinScan accounts2 modelId now2 ?start 0 of
             Some checkIndex \<Rightarrow>
               (let a = (accounts2 ! checkIndex)\<lparr>lastUsed := Some now2\<rparr> in
                (\<lparr>selected = Some a, index = int checkIndex, waitMs = 0\<rparr>, checkIndex,
                 accounts2[checkIndex := a]))
           | None \<Rightarrow> (\<lparr>selected = None, index = int ?c, waitMs = 0\<rparr>, ?c, accounts2))"
    using ne by (simp add: roundRobinSelect_def Let_def)
  obtain w where w: "w < ?n" "?P w" "w \<noteq> cursor1" using uv by metis
  from offset_covers [OF w(1), of ?start] obtain kw where kw: "kw < ?n" "(?start + kw) mod ?n = w"
    by blast
  have "roundRobinScan accounts2 modelId now2 ?start 0 \<noteq> None"
  proof
    assume "roundRobinScan accounts2 modelId now2 ?start 0 = None"
    from roundRobinScan_None [OF this _ kw(1)] kw(2) w(2) show False by simp
  qed
  then obtain j where j: "roundRobinScan accounts2 modelId now2 ?start 0 = Some j" by blast
  from roundRobinScan_Some [OF j] obtain k where
    k: "k < ?n" "j = (?start + k) mod ?n"
       "\<forall>k'. 0 \<le> k' \<and> k' < k \<longrightarrow> \<not> ?P ((?start + k') mod ?n)" by blast
  from second sel j have r2: "selected r2 \<noteq> None" "index r2 = int j"
    by (auto simp: Let_def)
  have "j \<noteq> cursor1"
  proof
    assume eq: "j = cursor1"
    with k(1,2) have lt: "cursor1 < ?n" by (metis mod_less_divisor length_greater_0_conv ne)
    then have c: "?c = cursor1" by simp
    from offset_of_cursor [OF lt k(1)] k(2) eq c have "k = ?n - 1" by simp
    moreover have "kw \<ge> k"
    proof (rule ccontr)
      assume "\<not> k \<le> kw"
      with k(3) have "\<not> ?P ((?start + kw) mod ?n)" by simp
      with kw(2) w(2) show False by simp
    qed
    ultimately have "kw = k" using kw(1) by simp
    with kw(2) k(2) eq w(3) show False by simp
  qed
  with r2 c1 show ?thesis by simp
qed


lemma roundRobinSelect_empty:
  "roundRobinSelect cursor [] modelId now = (r, cursor', accounts') \<Longrightarrow>
   selected r = None \<and> accounts' = []"
  by (auto simp: roundRobinSelect_def)

lemma set_scanOrder: "0 < n \<Longrightarrow> set (scanOrder cursor n) = {0 ..< n}"
proof (intro equalityI subsetI)
  fix j assume "0 < n" and "j \<in> set (scanOrder cursor n)"
  then show "j \<in> {0 ..< n}" by (auto simp: scanOrder_def)
next
  fix j assume n: "0 < n" and "j \<in> {0 ..< n}"
  then have "j < n" by simp
  from offset_covers [OF this, of "(if cursor \<ge> n then 0 else cursor) + 1"]
  obtain k where "k < n" and "((if cursor \<ge> n then 0 else cursor) + 1 + k) mod n = j" by blast
  then show "j \<in> set (scanOrder cursor n)"
    unfolding scanOrder_def by (auto simp: image_iff intro!: bexI [of _ k])
qed

lemma find_scanOrder_None:
  "(find (\<lambda>j. isAccountUsable (accounts ! j) modelId now) (scanOrder cursor (length accounts)) = None)
     = (\<not> list_ex (\<lambda>a. isAccountUsable a modelId now) accounts)"
proof (cases "accounts = []")
  case True
  then show ?thesis by (simp add: scanOrder_def)
next
  case False
  then have "set (scanOrder cursor (length accounts)) = {0 ..< length accounts}"
    by (intro set_scanOrder) simp
  then have "(\<exists>j\<in>set (scanOrder cursor (length accounts)).
        isAccountUsable (accounts ! j) modelId now)
      = (\<exists>j<length accounts. isAccountUsable (accounts ! j) modelId now)"
    by auto
  also have "\<dots> = (\<exists>a\<in>set accounts. isAccountUsable a modelId now)"
    by (metis in_set_conv_nth)
  finally have "(\<exists>j\<in>set (scanOrder cursor (length accounts)).
        isAccountUsable (accounts ! j) modelId now)
      = (\<exists>a\<in>set accounts. isAccountUsable a modelId now)" .
  then show ?thesis
    unfolding find_None_iff list_ex_iff by blast
qed

lemma roundRobinSelect_spec:
  assumes "roundRobinSelect cursor accounts modelId now = (r, cursor', accounts')"
  shows "case find (\<lambda>j. isAccountUsable (accounts ! j) modelId now)
                (scanOrder cursor (length accounts)) of
           None \<Rightarrow> selected r = None \<and> accounts' = accounts
         | Some j \<Rightarrow>
             selected r = Some ((accounts ! j)\<lparr>lastUsed := Some now\<rparr>) \<and> index r = int j
             \<and> cursor' = j"
proof (cases "accounts = []")
  case True
  with assms roundRobinSelect_empty [of cursor modelId now r cursor' accounts'] show ?thesis
    by (simp add: scanOrder_def)
next
  case False
  from roundRobinSelect_find [OF assms False] show ?thesis .
qed

lemma roundRobinSelect_frame:
  assumes "roundRobinSelect cursor accounts modelId now = (r, cursor', accounts')"
  shows "selectionFrame accounts accounts' r now"
proof (cases "accounts = []")
  case True
  with assms roundRobinSelect_empty [of cursor modelId now r cursor' accounts'] show ?thesis
    by (simp add: selectionFrame_def)
next
  case False
  let ?n = "length accounts"
  let ?start = "((if cursor \<ge> ?n then 0 else cursor) + 1) mod ?n"
  show ?thesis
  proof (cases "roundRobinScan accounts modelId now ?start 0")
    case None
    with assms False have "selected r = None" and "accounts' = accounts"
      by (auto simp: roundRobinSelect_def Let_def)
    then show ?thesis
      by (simp add: selectionFrame_def list_all2_conv_all_nth unchangedButLastUsed_def)
  next
    case (Some j)
    from roundRobinScan_Some [OF Some] False have j: "j < ?n"
      by (metis mod_less_divisor length_greater_0_conv)
    from assms False Some have "selected r = Some ((accounts ! j)\<lparr>lastUsed := Some now\<rparr>)"
      and "index r = int j" and "accounts' = accounts[j := (accounts ! j)\<lparr>lastUsed := Some now\<rparr>]"
      by (auto simp: roundRobinSelect_def Let_def)
    with j show ?thesis
      by (simp add: selectionFrame_def list_all2_conv_all_nth unchangedButLastUsed_def
            nth_list_update)
  qed
qed

lemma pickNextScan_bound:
  "pickNextScan accounts currentIndex modelId now startIndex i = Some j \<Longrightarrow> j < length accounts"
proof (induction accounts currentIndex modelId now startIndex i rule: pickNextScan.induct)
  case (1 accounts currentIndex modelId now startIndex i)
  show ?case
  proof (cases "i < length accounts")
    case False
    with "1.prems" show ?thesis by (simp add: pickNextScan.simps [of accounts _ _ _ _ i])
  next
    case True
    let ?c = "(startIndex + i) mod length accounts"
    from True have "0 < length accounts" by (cases accounts) simp_all
    then have c: "?c < length accounts" by simp
    show ?thesis
    proof (cases "?c \<noteq> currentIndex \<and> isAccountUsable (accounts ! ?c) modelId now")
      case True
      with \<open>i < length accounts\<close> "1.prems" c show ?thesis
        by (simp add: pickNextScan.simps [of accounts _ _ _ _ i] Let_def)
    next
      case False
      with \<open>i < length accounts\<close> "1.prems"
      have nxt: "pickNextScan accounts currentIndex modelId now startIndex (i + 1) = Some j"
        by (auto simp: pickNextScan.simps [of accounts _ _ _ _ i] Let_def split: if_splits)
      show ?thesis
      proof (cases "?c = currentIndex")
        case True
        from "1.IH"(1) [OF \<open>i < length accounts\<close> refl True nxt] show ?thesis .
      next
        case ne: False
        with False have "\<not> isAccountUsable (accounts ! ?c) modelId now" by simp
        from "1.IH"(2) [OF \<open>i < length accounts\<close> refl ne this nxt] show ?thesis .
      qed
    qed
  qed
qed

lemma frame_selected:
  "j < length accounts \<Longrightarrow>
   selectionFrame accounts (accounts[j := (accounts ! j)\<lparr>lastUsed := Some now\<rparr>])
     \<lparr>selected = Some ((accounts ! j)\<lparr>lastUsed := Some now\<rparr>), index = int j, waitMs = w\<rparr> now"
  by (simp add: selectionFrame_def list_all2_conv_all_nth unchangedButLastUsed_def nth_list_update)

lemma frame_none:
  "selectionFrame accounts accounts \<lparr>selected = None, index = i, waitMs = w\<rparr> now"
  by (simp add: selectionFrame_def list_all2_conv_all_nth unchangedButLastUsed_def)

lemma stickySelect_frame:
  assumes "stickySelect ownIndex optIndex accounts modelId now = (r, ownIndex', accounts')"
  shows "selectionFrame accounts accounts' r now"
proof (cases "accounts = []")
  case True
  with assms show ?thesis by (auto simp: stickySelect_def frame_none)
next
  case False
  let ?n = "length accounts"
  let ?ci = "nat (max 0 (min optIndex (int ?n - 1)))"
  from False have ci: "?ci < ?n" by (cases accounts) auto
  show ?thesis
  proof (cases "isAccountUsable (accounts ! ?ci) modelId now")
    case True
    with assms False have "r = \<lparr>selected = Some ((accounts ! ?ci)\<lparr>lastUsed := Some now\<rparr>),
        index = int ?ci, waitMs = 0\<rparr>"
      and "accounts' = accounts[?ci := (accounts ! ?ci)\<lparr>lastUsed := Some now\<rparr>]"
      by (auto simp: stickySelect_def Let_def)
    with frame_selected [OF ci] show ?thesis by simp
  next
    case nu: False
    let ?pick = "if length (getUsableAccounts accounts modelId now) > 0
                   then pickNextScan accounts ?ci modelId now ((?ci + 1) mod ?n) 0
                   else None"
    show ?thesis
    proof (cases ?pick)
      case (Some j)
      then have "pickNextScan accounts ?ci modelId now ((?ci + 1) mod ?n) 0 = Some j"
        by (simp split: if_splits)
      from pickNextScan_bound [OF this] have j: "j < ?n" .
      from assms False nu Some have "r = \<lparr>selected = Some ((accounts ! j)\<lparr>lastUsed := Some now\<rparr>),
          index = int j, waitMs = 0\<rparr>"
        and "accounts' = accounts[j := (accounts ! j)\<lparr>lastUsed := Some now\<rparr>]"
        by (auto simp: stickySelect_def Let_def)
      with frame_selected [OF j] show ?thesis by simp
    next
      case None
      with assms False nu have "accounts' = accounts" and "selected r = None"
        by (auto simp: stickySelect_def Let_def split: option.splits if_splits)
      then show ?thesis
        by (simp add: selectionFrame_def list_all2_conv_all_nth unchangedButLastUsed_def)
    qed
  qed
qed


lemma lower_Nil: "lower mw [] = mw"
  by (simp add: lower_def)

lemma lower_append: "lower mw (xs @ ys) = lower (lower mw xs) ys"
  by (simp add: lower_def)

lemma lower_single: "lower mw [w] = (if below w mw then Some w else mw)"
  by (simp add: lower_def)

lemma minWaitLoop_lower:
  "minWaitLoop accounts modelId now minWait = lower minWait (remainingWaits accounts modelId now)"
proof (induction accounts arbitrary: minWait)
  case Nil
  show ?case by (simp add: lower_Nil)
next
  case (Cons a rest)
  show ?case
  proof (cases "isInvalid a")
    case True
    with Cons show ?thesis by (simp add: lower_Nil)
  next
    case False
    then show ?thesis
      by (cases "map_of (modelRateLimits a) modelId")
         (simp_all add: Cons lower_append lower_single lower_Nil Let_def)
  qed
qed

lemma lower_Some: "lower (Some m) ws = Some (Min (insert m (set ws)))"
proof (induction ws arbitrary: m)
  case Nil
  show ?case by (simp add: lower_Nil)
next
  case (Cons w ws)
  have "lower (Some m) (w # ws) = lower (Some (min w m)) ws"
    by (simp add: lower_def below_def min_def)
  also have "\<dots> = Some (Min (insert (min w m) (set ws)))" by (rule Cons.IH)
  also have "Min (insert (min w m) (set ws)) = Min (insert m (set (w # ws)))"
  proof (cases "set ws = {}")
    case True
    then show ?thesis by (simp add: min.commute)
  next
    case False
    then show ?thesis by (simp add: min.assoc min.left_commute min.commute)
  qed
  finally show ?case .
qed

lemma lower_None: "ws \<noteq> [] \<Longrightarrow> lower None ws = Some (Min (set ws))"
proof (cases ws)
  case Nil
  then show "ws \<noteq> [] \<Longrightarrow> ?thesis" by simp
next
  case (Cons w rest)
  have "lower None (w # rest) = lower (Some w) rest" by (simp add: lower_def below_def)
  with Cons show ?thesis by (simp add: lower_Some)
qed


lemma available_empty:
  assumes "\<forall>a\<in>set accounts. \<not> isInvalid a \<longrightarrow> rateLimitedFor a modelId now"
  shows "getAvailableAccounts accounts modelId now = []"
  unfolding getAvailableAccounts_def filter_empty_conv
proof
  fix a assume "a \<in> set accounts"
  with assms have "\<not> isInvalid a \<longrightarrow> rateLimitedFor a modelId now" by blast
  then show "\<not> (if isInvalid a then False
             else if isAccountCoolingDown a now then False
             else case map_of (modelRateLimits a) modelId of
                    None \<Rightarrow> True
                  | Some rl \<Rightarrow> \<not> isRateLimited rl \<or> toNumber (resetTime rl) \<le> now)"
    by (auto simp: rateLimitedFor_def split: option.splits)
qed

lemma remainingWaits_nonempty:
  "a \<in> set accounts \<Longrightarrow> \<not> isInvalid a \<Longrightarrow> rateLimitedFor a modelId now \<Longrightarrow>
   remainingWaits accounts modelId now \<noteq> []"
  by (induction accounts) (auto simp: rateLimitedFor_def split: option.splits)

lemma minWait_all_limited:
  assumes all: "\<forall>a\<in>set accounts. \<not> isInvalid a \<longrightarrow> rateLimitedFor a modelId now"
    and some: "\<exists>a\<in>set accounts. \<not> isInvalid a"
  shows "getMinWaitTimeMs accounts modelId now = Min (set (remainingWaits accounts modelId now))"
proof -
  from some obtain a where a: "a \<in> set accounts" "\<not> isInvalid a" by blast
  with all have "rateLimitedFor a modelId now" by blast
  from remainingWaits_nonempty [OF a this]
  have ne: "remainingWaits accounts modelId now \<noteq> []" .
  from a have "accounts \<noteq> []" by auto
  with available_empty [OF all] ne show ?thesis
    by (simp add: getMinWaitTimeMs_def minWaitLoop_lower lower_None)
qed

lemma minWait_example:
  "getMinWaitTimeMs
     [limitedAccount e1 modelId 10000 now, limitedAccount e2 modelId 40000 now,
      limitedAccount e3 modelId 90000 now] modelId now = 10000"
  by (simp add: getMinWaitTimeMs_def getAvailableAccounts_def limitedAccount_def freshAccount_def
        isAccountCoolingDown_def getCooldownRemaining_def toNumber_def below_def Let_def)

lemma usable_available:
  "modelId \<noteq> [] \<Longrightarrow> isAccountUsable a modelId now \<Longrightarrow> a \<in> set accounts \<Longrightarrow>
   a \<in> set (getAvailableAccounts accounts modelId now)"
  by (auto simp: isAccountUsable_def getAvailableAccounts_def split: if_splits option.splits)

lemma minWait_usable:
  assumes "modelId \<noteq> []" and "list_ex (\<lambda>a. isAccountUsable a modelId now) accounts"
  shows "getMinWaitTimeMs accounts modelId now = 0"
proof -
  from assms(2) obtain a where "a \<in> set accounts" and "isAccountUsable a modelId now"
    by (auto simp: list_ex_iff)
  from usable_available [OF assms(1) this(2) this(1)]
  have "getAvailableAccounts accounts modelId now \<noteq> []" by auto
  then show ?thesis by (simp add: getMinWaitTimeMs_def)
qed

lemma minWait_available:
  "getAvailableAccounts accounts modelId now \<noteq> [] \<Longrightarrow> getMinWaitTimeMs accounts modelId now = 0"
  by (simp add: getMinWaitTimeMs_def)

subsection \<open>The claims about rotation and rate limits\<close>

text \<open>
  C7 (as amended). When every account that is not invalid is rate-limited for the model
  (and there is such an account), \<open>getMinWaitTimeMs\<close> returns the minimum of the remaining
  cooldown and rate-limit waits of those accounts; for three accounts whose limits reset in
  10 s, 40 s and 90 s it returns 10000. It returns 0 whenever an account is usable for the
  model. When the orchestrator finds every account rate-limited and this minimum exceeds
  120000 ms, it returns the resource-exhausted error without sleeping; otherwise it sleeps
  for the minimum plus 500 ms, sweeps the expired limits and retries with the attempt
  counter unchanged.
\<close>

theorem min_wait_and_exhaustion:
  "((\<forall>a\<in>set accounts. \<not> isInvalid a \<longrightarrow> rateLimitedFor a modelId now)
      \<and> (\<exists>a\<in>set accounts. \<not> isInvalid a) \<longrightarrow>
      getMinWaitTimeMs accounts modelId now = Min (set (remainingWaits accounts modelId now)))
   \<and> getMinWaitTimeMs
        [limitedAccount e1 modelId 10000 now, limitedAccount e2 modelId 40000 now,
         limitedAccount e3 modelId 90000 now] modelId now = 10000
   \<and> (modelId \<noteq> [] \<and> list_ex (\<lambda>a. isAccountUsable a modelId now) accounts \<longrightarrow>
        getMinWaitTimeMs accounts modelId now = 0)
   \<and> (isAllRateLimited accounts modelId now \<and> getMinWaitTimeMs accounts modelId now > 120000 \<longrightarrow>
        (\<exists>message. rateLimitedBranch accounts modelId now wake attempt = ResourceExhausted message))
   \<and> (isAllRateLimited accounts modelId now \<and> getMinWaitTimeMs accounts modelId now \<le> 120000 \<longrightarrow>
        rateLimitedBranch accounts modelId now wake attempt
          = SleepAndRetry (getMinWaitTimeMs accounts modelId now + 500) attempt
              (fst (clearExpiredLimits accounts wake)))"
proof (intro conjI impI)
  assume "(\<forall>a\<in>set accounts. \<not> isInvalid a \<longrightarrow> rateLimitedFor a modelId now)
      \<and> (\<exists>a\<in>set accounts. \<not> isInvalid a)"
  then show "getMinWaitTimeMs accounts modelId now
      = Min (set (remainingWaits accounts modelId now))"
    using minWait_all_limited by blast
next
  show "getMinWaitTimeMs
        [limitedAccount e1 modelId 10000 now, limitedAccount e2 modelId 40000 now,
         limitedAccount e3 modelId 90000 now] modelId now = 10000"
    by (rule minWait_example)
next
  assume "modelId \<noteq> [] \<and> list_ex (\<lambda>a. isAccountUsable a modelId now) accounts"
  then show "getMinWaitTimeMs accounts modelId now = 0"
    using minWait_usable by blast
next
  assume "isAllRateLimited accounts modelId now \<and> getMinWaitTimeMs accounts modelId now > 120000"
  then show "\<exists>message. rateLimitedBranch accounts modelId now wake attempt
      = ResourceExhausted message"
    by (simp add: rateLimitedBranch_def MAX_WAIT_BEFORE_ERROR_MS_def Let_def)
next
  assume "isAllRateLimited accounts modelId now \<and> getMinWaitTimeMs accounts modelId now \<le> 120000"
  then show "rateLimitedBranch accounts modelId now wake attempt
          = SleepAndRetry (getMinWaitTimeMs accounts modelId now + 500) attempt
              (fst (clearExpiredLimits accounts wake))"
    by (simp add: rateLimitedBranch_def MAX_WAIT_BEFORE_ERROR_MS_def Let_def)
qed

theorem min_wait_and_exhaustion_witness:
  "getMinWaitTimeMs
        [limitedAccount ''a'' ''gpt-5.2'' 130000 1000, limitedAccount ''b'' ''gpt-5.2'' 140000 1000]
        ''gpt-5.2'' 1000
     = Min (set (remainingWaits
        [limitedAccount ''a'' ''gpt-5.2'' 130000 1000, limitedAccount ''b'' ''gpt-5.2'' 140000 1000]
        ''gpt-5.2'' 1000))
   \<and> isAllRateLimited
        [limitedAccount ''a'' ''gpt-5.2'' 130000 1000, limitedAccount ''b'' ''gpt-5.2'' 140000 1000]
        ''gpt-5.2'' 1000
   \<and> getMinWaitTimeMs
        [limitedAccount ''a'' ''gpt-5.2'' 130000 1000, limitedAccount ''b'' ''gpt-5.2'' 140000 1000]
        ''gpt-5.2'' 1000 > 120000
   \<and> (\<exists>message. rateLimitedBranch
        [limitedAccount ''a'' ''gpt-5.2'' 130000 1000, limitedAccount ''b'' ''gpt-5.2'' 140000 1000]
        ''gpt-5.2'' 1000 1000 0 = ResourceExhausted message)
   \<and> ''gpt-5.2'' \<noteq> []
   \<and> list_ex (\<lambda>a. isAccountUsable a ''gpt-5.2'' 1000)
        [limitedAccount ''a'' ''gpt-5.2'' 5000 1000, freshAccount ''b'']
   \<and> getMinWaitTimeMs [limitedAccount ''a'' ''gpt-5.2'' 5000 1000, freshAccount ''b'']
        ''gpt-5.2'' 1000 = 0
   \<and> isAllRateLimited [limitedAccount ''a'' ''gpt-5.2'' 5000 1000] ''gpt-5.2'' 1000
   \<and> getMinWaitTimeMs [limitedAccount ''a'' ''gpt-5.2'' 5000 1000] ''gpt-5.2'' 1000 \<le> 120000
   \<and> rateLimitedBranch [limitedAccount ''a'' ''gpt-5.2'' 5000 1000] ''gpt-5.2'' 1000 6500 3
       = SleepAndRetry
           (getMinWaitTimeMs [limitedAccount ''a'' ''gpt-5.2'' 5000 1000] ''gpt-5.2'' 1000 + 500) 3
           (fst (clearExpiredLimits [limitedAccount ''a'' ''gpt-5.2'' 5000 1000] 6500))"
proof -
  let ?far = "[limitedAccount ''a'' ''gpt-5.2'' 130000 1000, limitedAccount ''b'' ''gpt-5.2'' 140000 1000]"
  let ?mixed = "[limitedAccount ''a'' ''gpt-5.2'' 5000 1000, freshAccount ''b'']"
  let ?near = "[limitedAccount ''a'' ''gpt-5.2'' 5000 1000]"
  have a: "\<forall>a\<in>set ?far. \<not> isInvalid a \<longrightarrow> rateLimitedFor a ''gpt-5.2'' 1000"
    by (simp add: limitedAccount_def freshAccount_def rateLimitedFor_def toNumber_def)
  have b: "\<exists>a\<in>set ?far. \<not> isInvalid a"
    by (simp add: limitedAccount_def freshAccount_def)
  have c: "isAllRateLimited ?far ''gpt-5.2'' 1000"
    by (simp add: isAllRateLimited_def limitedAccount_def freshAccount_def toNumber_def)
  from min_wait_and_exhaustion [of ?far "''gpt-5.2''" 1000] a b
  have m: "getMinWaitTimeMs ?far ''gpt-5.2'' 1000
      = Min (set (remainingWaits ?far ''gpt-5.2'' 1000))"
    by blast
  also have "\<dots> = 130000"
    by (simp add: limitedAccount_def freshAccount_def getCooldownRemaining_def toNumber_def)
  finally have d: "getMinWaitTimeMs ?far ''gpt-5.2'' 1000 > 120000" by simp
  from min_wait_and_exhaustion [of ?far "''gpt-5.2''" 1000 _ _ _ 1000 0] c d
  have e: "\<exists>message. rateLimitedBranch ?far ''gpt-5.2'' 1000 1000 0 = ResourceExhausted message"
    by blast
  have f: "''gpt-5.2'' \<noteq> []" by simp
  have g: "list_ex (\<lambda>a. isAccountUsable a ''gpt-5.2'' 1000) ?mixed"
    by (simp add: isAccountUsable_def limitedAccount_def freshAccount_def isAccountCoolingDown_def)
  from min_wait_and_exhaustion [of ?mixed "''gpt-5.2''" 1000] f g
  have h: "getMinWaitTimeMs ?mixed ''gpt-5.2'' 1000 = 0" by blast
  have i: "isAllRateLimited ?near ''gpt-5.2'' 1000"
    by (simp add: isAllRateLimited_def limitedAccount_def freshAccount_def toNumber_def)
  have j: "getMinWaitTimeMs ?near ''gpt-5.2'' 1000 \<le> 120000"
    by (simp add: getMinWaitTimeMs_def getAvailableAccounts_def limitedAccount_def
          freshAccount_def isAccountCoolingDown_def getCooldownRemaining_def toNumber_def
          below_def Let_def)
  from min_wait_and_exhaustion [of ?near "''gpt-5.2''" 1000 _ _ _ 6500 3] i j
  have k: "rateLimitedBranch ?near ''gpt-5.2'' 1000 6500 3
       = SleepAndRetry (getMinWaitTimeMs ?near ''gpt-5.2'' 1000 + 500) 3
           (fst (clearExpiredLimits ?near 6500))"
    by blast
  show ?thesis by (intro conjI m c d e f g h i j k)
qed

text \<open>
  The claim as stated fails in the length of the sleep: with one account whose limit resets
  in 10 s the minimum wait is 10000 ms and the orchestrator sleeps for 10500 ms.
\<close>

theorem min_wait_and_exhaustion_counterexample:
  "getMinWaitTimeMs [limitedAccount ''a'' ''gpt-5.2'' 10000 1000] ''gpt-5.2'' 1000 = 10000
   \<and> rateLimitedBranch [limitedAccount ''a'' ''gpt-5.2'' 10000 1000] ''gpt-5.2'' 1000 11500 0
       = SleepAndRetry 10500 0 [(freshAccount ''a'')\<lparr>modelRateLimits :=
           [(''gpt-5.2'', \<lparr>isRateLimited = False, resetTime = None, actualResetMs = None\<rparr>)]\<rparr>]"
  by (simp add: rateLimitedBranch_def isAllRateLimited_def getMinWaitTimeMs_def
        getAvailableAccounts_def limitedAccount_def freshAccount_def isAccountCoolingDown_def
        getCooldownRemaining_def toNumber_def below_def MAX_WAIT_BEFORE_ERROR_MS_def Let_def)

text \<open>
  C8. Whatever the cursor is, when a selection of the round-robin strategy returns an
  account and the pool holds at least two usable accounts for the model at the next
  selection, the next selection returns an account at a different index. Every selection
  visits the indices in the order that starts one past the stored cursor and wraps around,
  returns the first usable account in that order and moves the cursor to it, and returns
  no account exactly when no account of the pool is usable.
\<close>

theorem round_robin_never_repeats:
  "(roundRobinSelect cursor accounts1 modelId now1 = (r1, cursor1, accounts1')
      \<and> selected r1 \<noteq> None
      \<and> roundRobinSelect cursor1 accounts2 modelId now2 = (r2, cursor2, accounts2')
      \<and> 2 \<le> length (getUsableAccounts accounts2 modelId now2) \<longrightarrow>
      selected r2 \<noteq> None \<and> index r2 \<noteq> index r1)
   \<and> (roundRobinSelect cursor accounts modelId now = (r, cursor', accounts') \<longrightarrow>
        (case find (\<lambda>j. isAccountUsable (accounts ! j) modelId now)
                (scanOrder cursor (length accounts)) of
           None \<Rightarrow> selected r = None \<and> accounts' = accounts
         | Some j \<Rightarrow>
             selected r = Some ((accounts ! j)\<lparr>lastUsed := Some now\<rparr>) \<and> index r = int j
             \<and> cursor' = j)
        \<and> (selected r = None) = (\<not> list_ex (\<lambda>a. isAccountUsable a modelId now) accounts))"
proof (intro conjI impI)
  assume "roundRobinSelect cursor accounts1 modelId now1 = (r1, cursor1, accounts1')
      \<and> selected r1 \<noteq> None
      \<and> roundRobinSelect cursor1 accounts2 modelId now2 = (r2, cursor2, accounts2')
      \<and> 2 \<le> length (getUsableAccounts accounts2 modelId now2)"
  then have "selected r2 \<noteq> None \<and> index r2 \<noteq> index r1"
    using never_repeats [of cursor accounts1 modelId now1 r1 cursor1 accounts1' accounts2 now2
        r2 cursor2 accounts2'] by blast
  then show "selected r2 \<noteq> None" and "index r2 \<noteq> index r1" by simp_all
next
  assume sel: "roundRobinSelect cursor accounts modelId now = (r, cursor', accounts')"
  from roundRobinSelect_spec [OF sel]
  show spec: "case find (\<lambda>j. isAccountUsable (accounts ! j) modelId now)
                (scanOrder cursor (length accounts)) of
           None \<Rightarrow> selected r = None \<and> accounts' = accounts
         | Some j \<Rightarrow>
             selected r = Some ((accounts ! j)\<lparr>lastUsed := Some now\<rparr>) \<and> index r = int j
             \<and> cursor' = j" .
  have "(selected r = None)
      = (find (\<lambda>j. isAccountUsable (accounts ! j) modelId now)
           (scanOrder cursor (length accounts)) = None)"
    using spec by (auto split: option.splits)
  then show "(selected r = None) = (\<not> list_ex (\<lambda>a. isAccountUsable a modelId now) accounts)"
    by (simp add: find_scanOrder_None)
qed

theorem round_robin_never_repeats_witness:
  "selected (fst (roundRobinSelect 0 [freshAccount ''a'', freshAccount ''b'', freshAccount ''c'']
                    ''gpt-5.2'' 1000)) \<noteq> None
   \<and> 2 \<le> length (getUsableAccounts [freshAccount ''a'', freshAccount ''b'', freshAccount ''c'']
                    ''gpt-5.2'' 2000)
   \<and> index (fst (roundRobinSelect
         (fst (snd (roundRobinSelect 0 [freshAccount ''a'', freshAccount ''b'', freshAccount ''c'']
                      ''gpt-5.2'' 1000)))
         [freshAccount ''a'', freshAccount ''b'', freshAccount ''c''] ''gpt-5.2'' 2000))
     \<noteq> index (fst (roundRobinSelect 0 [freshAccount ''a'', freshAccount ''b'', freshAccount ''c'']
                    ''gpt-5.2'' 1000))"
proof -
  let ?pool = "[freshAccount ''a'', freshAccount ''b'', freshAccount ''c'']"
  let ?first = "roundRobinSelect 0 ?pool ''gpt-5.2'' 1000"
  let ?second = "roundRobinSelect (fst (snd ?first)) ?pool ''gpt-5.2'' 2000"
  have usable: "\<And>e t. isAccountUsable (freshAccount e) ''gpt-5.2'' t"
    by (simp add: isAccountUsable_def freshAccount_def isAccountCoolingDown_def)
  have scan: "roundRobinScan ?pool ''gpt-5.2'' 1000 (Suc 0) 0 = Some 1"
    by (simp add: roundRobinScan.simps [of _ _ _ _ 0] usable)
  have a: "selected (fst ?first) \<noteq> None"
    by (simp add: roundRobinSelect_def scan Let_def)
  have b: "2 \<le> length (getUsableAccounts ?pool ''gpt-5.2'' 2000)"
    by (simp add: getUsableAccounts_def usable upt_rec)
  have e1: "?first = (fst ?first, fst (snd ?first), snd (snd ?first))" by simp
  have e2: "?second = (fst ?second, fst (snd ?second), snd (snd ?second))" by simp
  from round_robin_never_repeats
    [of 0 ?pool "''gpt-5.2''" 1000 "fst ?first" "fst (snd ?first)" "snd (snd ?first)"
        ?pool 2000 "fst ?second" "fst (snd ?second)" "snd (snd ?second)"]
    e1 e2 a b
  have "index (fst ?second) \<noteq> index (fst ?first)" by blast
  with a b show ?thesis by blast
qed

text \<open>
  C10. A call of \<open>selectAccount\<close> of either strategy changes no member of any account
  except \<open>lastUsed\<close>, and it sets \<open>lastUsed\<close> only on the account it returns: the pool
  after the call is the pool before it with that one assignment, or the same pool when no
  account is returned. In particular \<open>isInvalid\<close>, \<open>enabled\<close>, \<open>cooldownUntil\<close> and
  \<open>modelRateLimits\<close> of every account are unchanged.
\<close>

theorem select_account_frame:
  "(roundRobinSelect cursor accounts modelId now = (r, cursor', accounts') \<longrightarrow>
      selectionFrame accounts accounts' r now)
   \<and> (stickySelect ownIndex optIndex accounts modelId now = (r', ownIndex', accounts'') \<longrightarrow>
      selectionFrame accounts accounts'' r' now)"
  using roundRobinSelect_frame stickySelect_frame by blast

theorem select_account_frame_witness:
  "selectionFrame [limitedAccount ''a'' ''gpt-5.2'' 5000 1000, freshAccount ''b'']
     (snd (snd (roundRobinSelect 0 [limitedAccount ''a'' ''gpt-5.2'' 5000 1000, freshAccount ''b'']
                  ''gpt-5.2'' 1000)))
     (fst (roundRobinSelect 0 [limitedAccount ''a'' ''gpt-5.2'' 5000 1000, freshAccount ''b'']
             ''gpt-5.2'' 1000)) 1000
   \<and> selectionFrame [limitedAccount ''a'' ''gpt-5.2'' 5000 1000, freshAccount ''b'']
     (snd (snd (stickySelect 0 0 [limitedAccount ''a'' ''gpt-5.2'' 5000 1000, freshAccount ''b'']
                  ''gpt-5.2'' 1000)))
     (fst (stickySelect 0 0 [limitedAccount ''a'' ''gpt-5.2'' 5000 1000, freshAccount ''b'']
             ''gpt-5.2'' 1000)) 1000"
proof -
  let ?pool = "[limitedAccount ''a'' ''gpt-5.2'' 5000 1000, freshAccount ''b'']"
  let ?rr = "roundRobinSelect 0 ?pool ''gpt-5.2'' 1000"
  let ?st = "stickySelect 0 0 ?pool ''gpt-5.2'' 1000"
  have e1: "?rr = (fst ?rr, fst (snd ?rr), snd (snd ?rr))" by simp
  have e2: "?st = (fst ?st, fst (snd ?st), snd (snd ?st))" by simp
  from select_account_frame
    [of 0 ?pool "''gpt-5.2''" 1000 "fst ?rr" "fst (snd ?rr)" "snd (snd ?rr)"
        0 0 "fst ?st" "fst (snd ?st)" "snd (snd ?st)"] e1 e2
  show ?thesis by blast
qed

section \<open>The request converter: constant members, tools and instructions\<close>

lemma tools_array:
  "convertAnthropicToolsToOpenAI tools = Inr r \<Longrightarrow> \<exists>ts. r = JArr ts"
  by (auto simp: convertAnthropicToolsToOpenAI_def split: json.splits sum.splits)

lemma requestTools_array:
  "(case tools of
      Some tools \<Rightarrow> if truthy tools then convertAnthropicToolsToOpenAI tools else Inr (JArr [])
    | None \<Rightarrow> Inr (JArr [])) = Inr r \<Longrightarrow> \<exists>ts. r = JArr ts"
  by (auto dest: tools_array split: option.splits if_splits)

text \<open>
  The shape of every request that the converter returns, with the outcome of the two
  conversions that the claimed members depend on.
\<close>

lemma convert_shape:
  assumes "convertAnthropicToResponsesAPI stringify rnd req = Inr request"
  shows "\<exists>model input tools choice instructions.
           (case getField req ''tools'' of
              Some tools \<Rightarrow>
                if truthy tools then convertAnthropicToolsToOpenAI tools else Inr (JArr [])
            | None \<Rightarrow> Inr (JArr [])) = Inr tools \<and>
           extractSystemPrompt (getField req ''system'') = Inr instructions \<and>
           request = JObj [(''model'', model), (''input'', input), (''tools'', tools),
                           (''tool_choice'', choice), (''parallel_tool_calls'', JBool True),
                           (''store'', JBool False), (''stream'', JBool True),
                           (''include'', JArr []),
                           (''instructions'',
                            (case instructions of Some s \<Rightarrow> JStr s | None \<Rightarrow> JStr []))]"
proof -
  from assms have nn: "req \<noteq> JNull"
    by (auto simp: convertAnthropicToResponsesAPI_def split: if_splits)
  obtain instr where i: "extractSystemPrompt (getField req ''system'') = Inr instr"
    using assms nn
    by (cases "extractSystemPrompt (getField req ''system'')")
       (simp_all add: convertAnthropicToResponsesAPI_def Let_def)
  let ?m = "cleanCacheControl
                (case getField req ''messages'' of
                   Some m \<Rightarrow> if truthy m then m else JArr []
                 | None \<Rightarrow> JArr [])"
  let ?t = "(case getField req ''tools'' of
              Some tools \<Rightarrow>
                if truthy tools then convertAnthropicToolsToOpenAI tools else Inr (JArr [])
            | None \<Rightarrow> Inr (JArr []))"
  obtain input where inp: "convertMessagesToInput stringify rnd ?m = Inr input"
    using assms nn i
    by (cases "convertMessagesToInput stringify rnd ?m")
       (simp_all add: convertAnthropicToResponsesAPI_def Let_def)
  obtain tools where t: "?t = Inr tools"
    using assms nn i inp
    by (cases ?t) (simp_all add: convertAnthropicToResponsesAPI_def Let_def)
  from assms nn i inp t show ?thesis
    by (auto simp: convertAnthropicToResponsesAPI_def Let_def)
qed

lemma convert_members:
  assumes "convertAnthropicToResponsesAPI stringify rnd req = Inr request"
  shows "fixedMembers request \<and> arrayMember request ''tools'' \<and>
         stringMember request ''instructions'' \<and>
         (getField req ''tools'' = None \<longrightarrow> getField request ''tools'' = Some (JArr [])) \<and>
         (getField req ''system'' = None \<longrightarrow> getField request ''instructions'' = Some (JStr []))"
proof -
  from convert_shape [OF assms] obtain model input tools choice instructions where
    t: "(case getField req ''tools'' of
              Some tools \<Rightarrow>
                if truthy tools then convertAnthropicToolsToOpenAI tools else Inr (JArr [])
            | None \<Rightarrow> Inr (JArr [])) = Inr tools" and
    i: "extractSystemPrompt (getField req ''system'') = Inr instructions" and
    r: "request = JObj [(''model'', model), (''input'', input), (''tools'', tools),
                           (''tool_choice'', choice), (''parallel_tool_calls'', JBool True),
                           (''store'', JBool False), (''stream'', JBool True),
                           (''include'', JArr []),
                           (''instructions'',
                            (case instructions of Some s \<Rightarrow> JStr s | None \<Rightarrow> JStr []))]"
    by blast
  from requestTools_array [OF t] obtain ts where ts: "tools = JArr ts" by blast
  have 1: "fixedMembers request" by (simp add: r fixedMembers_def)
  have 2: "arrayMember request ''tools''" by (simp add: r ts arrayMember_def)
  have 3: "stringMember request ''instructions''"
    by (cases instructions) (simp_all add: r stringMember_def)
  have 4: "getField req ''tools'' = None \<longrightarrow> getField request ''tools'' = Some (JArr [])"
    using t by (auto simp: r)
  have 5: "getField req ''system'' = None \<longrightarrow> getField request ''instructions'' = Some (JStr [])"
    using i by (auto simp: r extractSystemPrompt_def)
  from 1 2 3 4 5 show ?thesis by blast
qed

text \<open>
  The converter returns a request for every Protocol-A request: no step of the conversion
  throws.
\<close>

lemma isObject_not_null: "isObject b \<Longrightarrow> b \<noteq> JNull"
  by (cases b) simp_all

lemma textsOfType_total:
  "list_all textPart xs \<Longrightarrow>
   \<exists>texts. textsOfType xs = Inr texts \<and> list_all stringOrAbsent texts"
  by (induction xs) (auto simp: textPart_def isObject_not_null)

lemma elementString_total: "stringOrAbsent v \<Longrightarrow> \<exists>r. elementString v = Inr r"
  by (auto simp: stringOrAbsent_def elementString_def split: option.splits json.splits)

lemma joinWith_total: "list_all stringOrAbsent texts \<Longrightarrow> \<exists>r. joinWith sep texts = Inr r"
proof (induction sep texts rule: joinWith.induct)
  case (1 sep)
  show ?case by simp
next
  case (2 sep x)
  then show ?case by (simp add: elementString_total)
next
  case (3 sep x y ys)
  from 3(2) obtain a where a: "elementString x = Inr a"
    using elementString_total by auto
  from 3(2) have "list_all stringOrAbsent (y # ys)" by simp
  from 3(1) [OF a this] obtain b where "joinWith sep (y # ys) = Inr b" by blast
  with a show ?case by simp
qed

lemma joinedTexts_total:
  assumes "list_all textPart parts"
  shows "\<exists>texts joined. textsOfType parts = Inr texts \<and> joinWith sep texts = Inr joined"
proof -
  from textsOfType_total [OF assms] obtain texts where
    t: "textsOfType parts = Inr texts" and s: "list_all stringOrAbsent texts" by blast
  from joinWith_total [OF s] obtain joined where "joinWith sep texts = Inr joined" by blast
  with t show ?thesis by blast
qed

lemma extractSystemPrompt_total:
  "blocksIfArray textPart system \<Longrightarrow> \<exists>r. extractSystemPrompt system = Inr r"
proof (cases system)
  case None
  then show ?thesis by (simp add: extractSystemPrompt_def)
next
  case (Some v)
  assume ok: "blocksIfArray textPart system"
  show ?thesis
  proof (cases v)
    case (JArr blocks)
    with ok Some have "list_all textPart blocks" by (simp add: blocksIfArray_def)
    from joinedTexts_total [OF this] obtain texts joined where
      "textsOfType blocks = Inr texts" "joinWith [CHR 0x0A, CHR 0x0A] texts = Inr joined"
      by blast
    with Some JArr show ?thesis by (simp add: extractSystemPrompt_def)
  qed (simp_all add: Some extractSystemPrompt_def)
qed

lemma toolsLoop_total: "list_all isObject ts \<Longrightarrow> \<exists>r. toolsLoop ts = Inr r"
  by (induction ts) (auto simp: isObject_not_null)

lemma requestTools_total:
  assumes "blocksIfArray isObject tools"
  shows "\<exists>r. (case tools of
                 Some tools \<Rightarrow>
                   if truthy tools then convertAnthropicToolsToOpenAI tools else Inr (JArr [])
               | None \<Rightarrow> Inr (JArr [])) = Inr r"
proof (cases tools)
  case None
  then show ?thesis by simp
next
  case (Some v)
  show ?thesis
  proof (cases v)
    case (JArr ts)
    with assms Some have "list_all isObject ts" by (simp add: blocksIfArray_def)
    from toolsLoop_total [OF this] obtain r where "toolsLoop ts = Inr r" by blast
    with Some JArr show ?thesis by (simp add: convertAnthropicToolsToOpenAI_def)
  qed (simp_all add: Some convertAnthropicToolsToOpenAI_def)
qed

lemma toolIdOf_total: "stringOrAbsent v \<Longrightarrow> \<exists>r. toolIdOf x v = Inr r"
  by (auto simp: stringOrAbsent_def toolIdOf_def split: option.splits json.splits)

lemma toolResultOutput_total:
  assumes "blocksIfArray textPart c"
  shows "\<exists>r. toolResultOutput stringify c = Inr r"
proof (cases c)
  case None
  then show ?thesis by (simp add: toolResultOutput_def)
next
  case (Some v)
  show ?thesis
  proof (cases v)
    case (JArr parts)
    with assms Some have "list_all textPart parts" by (simp add: blocksIfArray_def)
    from joinedTexts_total [OF this] obtain texts joined where
      "textsOfType parts = Inr texts" "joinWith [CHR 0x0A] texts = Inr joined" by blast
    with Some JArr show ?thesis by (simp add: toolResultOutput_def)
  qed (simp_all add: Some toolResultOutput_def)
qed

lemma userBlocks_total:
  "list_all userBlock blocks \<Longrightarrow> \<exists>r. userBlocks stringify rnd i j blocks = Inr r"
proof (induction blocks arbitrary: j)
  case Nil
  then show ?case by simp
next
  case (Cons block rest)
  then have b: "userBlock block" and rest: "list_all userBlock rest" by simp_all
  from b have nn: "block \<noteq> JNull" by (simp add: userBlock_def isObject_not_null)
  from Cons.IH [OF rest] obtain textParts toolResults where
    ih: "userBlocks stringify rnd i (j + 1) rest = Inr (textParts, toolResults)" by fastforce
  from b obtain out where out: "toolResultOutput stringify (getField block ''content'') = Inr out"
    using toolResultOutput_total by (auto simp: userBlock_def)
  from b obtain callId where cid: "toolIdOf (rnd i j) (getField block ''tool_use_id'') = Inr callId"
    using toolIdOf_total by (auto simp: userBlock_def)
  from nn ih out cid show ?case by simp
qed

lemma signatureLongEnough_string:
  "stringOrAbsent v \<Longrightarrow> \<exists>ok. signatureLongEnough v = Inr ok"
  by (auto simp: stringOrAbsent_def split: option.splits json.splits)

lemma signatureLongEnough_total:
  "assistantBlock b \<Longrightarrow> \<exists>ok. signatureLongEnough (getField b ''signature'') = Inr ok"
  by (cases b) (simp_all add: signatureLongEnough_string)

lemma assistantBlocks_total:
  "list_all toolCallBlock blocks \<Longrightarrow> \<exists>r. assistantBlocks stringify rnd i j blocks = Inr r"
proof (induction blocks arbitrary: j)
  case Nil
  then show ?case by simp
next
  case (Cons block rest)
  then have b: "toolCallBlock block" and rest: "list_all toolCallBlock rest" by simp_all
  from b have ab: "assistantBlock block" by (simp add: toolCallBlock_def)
  then have "truthy block" by (rule assistantBlock_truthy)
  then have nn: "block \<noteq> JNull" by auto
  from Cons.IH [OF rest] obtain textParts toolCalls where
    ih: "assistantBlocks stringify rnd i (j + 1) rest = Inr (textParts, toolCalls)" by fastforce
  from b obtain callId where cid: "toolIdOf (rnd i j) (getField block ''id'') = Inr callId"
    using toolIdOf_total by (auto simp: toolCallBlock_def)
  from signatureLongEnough_total [OF ab] obtain ok1 where
    s1: "signatureLongEnough (getField block ''signature'') = Inr ok1" by blast
  from b obtain ok2 where s2: "signatureLongEnough (getField block ''thoughtSignature'') = Inr ok2"
    using signatureLongEnough_string by (auto simp: toolCallBlock_def)
  from nn ih cid s1 s2 show ?case by simp
qed

lemma toolCallBlock_sanitize_thinking:
  "toolCallBlock b \<Longrightarrow> toolCallBlock (sanitizeAnthropicThinkingBlock b)"
  unfolding toolCallBlock_def
  by (rule conjI, erule conjE, erule assistantBlock_sanitize_thinking)
     (auto simp: sanitizeAnthropicThinkingBlock_def optField_def stringOrAbsent_def hasType_def
        split: option.splits)

lemma toolCallBlock_sanitize_tool:
  "toolCallBlock b \<Longrightarrow> toolCallBlock (sanitizeToolUseBlock b)"
  unfolding toolCallBlock_def
  by (rule conjI, erule conjE, erule assistantBlock_sanitize_tool)
     (auto simp: sanitizeToolUseBlock_def optField_def stringOrAbsent_def hasType_def
        split: option.splits)

lemma toolCallBlock_sanitize_text:
  "toolCallBlock b \<Longrightarrow> toolCallBlock (sanitizeTextBlock b)"
  unfolding toolCallBlock_def
  by (rule conjI, erule conjE, erule assistantBlock_sanitize_text)
     (auto simp: sanitizeTextBlock_def optField_def stringOrAbsent_def hasType_def
        split: option.splits)

lemma restoreLoop_preserves:
  assumes Q_block: "\<And>b. Q b \<Longrightarrow> assistantBlock b"
    and Q_thinking: "\<And>b. Q b \<Longrightarrow> Q (sanitizeAnthropicThinkingBlock b)"
  shows "list_all Q content \<Longrightarrow> list_all Q filtered \<Longrightarrow>
   \<exists>out. restoreLoop content filtered = Inr out \<and> list_all Q out"
proof (induction content arbitrary: filtered)
  case Nil
  then show ?case by simp
next
  case (Cons block rest)
  then have b: "Q block" and rest: "list_all Q rest" by simp_all
  from b obtain ok where ok: "signatureLongEnough (getField block ''signature'') = Inr ok"
    using signatureLongEnough_total Q_block by blast
  have 1: "\<exists>out. restoreLoop rest (filtered @ [block]) = Inr out \<and> list_all Q out"
    using Cons.prems b by (intro Cons.IH [OF rest]) simp
  have 2: "\<exists>out. restoreLoop rest (filtered @ [sanitizeAnthropicThinkingBlock block]) = Inr out
             \<and> list_all Q out"
    using Cons.prems b by (intro Cons.IH [OF rest]) (simp add: Q_thinking)
  have 3: "\<exists>out. restoreLoop rest filtered = Inr out \<and> list_all Q out"
    using Cons.prems by (intro Cons.IH [OF rest]) simp
  from ok 1 2 3 show ?case by (cases ok) simp_all
qed

lemma process_toolCallBlocks:
  assumes "list_all toolCallBlock content"
  shows "\<exists>out. processAssistantContent (JArr content) = Inr (JArr out) \<and> list_all toolCallBlock out"
proof -
  have blk: "\<And>b. toolCallBlock b \<Longrightarrow> assistantBlock b" by (simp add: toolCallBlock_def)
  from restoreLoop_preserves [of toolCallBlock, OF blk toolCallBlock_sanitize_thinking assms, of "[]"]
  obtain restored where r: "restoreLoop content [] = Inr restored"
    and rq: "list_all toolCallBlock restored" by auto
  from removeTrailing_preserves [OF rq] obtain trimmed where
    t: "removeTrailingThinkingBlocks (JArr restored) = JArr trimmed"
    and tq: "list_all toolCallBlock trimmed" by blast
  from reorder_preserves [of toolCallBlock, OF blk toolCallBlock_sanitize_thinking
      toolCallBlock_sanitize_tool toolCallBlock_sanitize_text tq]
  obtain out where "reorderAssistantContent (JArr trimmed) = Inr (JArr out)"
    and "list_all toolCallBlock out" by blast
  with r t show ?thesis by simp
qed

lemma map_of_filter_other:
  "k \<noteq> c \<Longrightarrow> map_of (filter (\<lambda>(k', v). k' \<noteq> c) kvs) k = map_of kvs k"
  by (induction kvs) auto

lemma getField_cleanBlock:
  "k \<noteq> ''cache_control'' \<Longrightarrow> getField (cleanBlock b) k = getField b k"
  by (cases b) (simp_all add: cleanBlock_def map_of_filter_other)

lemma isObject_cleanBlock: "isObject (cleanBlock b) = isObject b"
  by (cases b) (simp_all add: cleanBlock_def)

lemma userBlock_cleanBlock: "userBlock b \<Longrightarrow> userBlock (cleanBlock b)"
  by (simp add: userBlock_def getField_cleanBlock isObject_cleanBlock)

lemma assistantBlock_cleanBlock: "assistantBlock b \<Longrightarrow> assistantBlock (cleanBlock b)"
proof (cases b)
  case (JObj kvs)
  assume "assistantBlock b"
  then have a: "assistantBlock (JObj kvs)" by (simp add: JObj)
  have g: "\<And>k. k \<noteq> ''cache_control'' \<Longrightarrow> getField (cleanBlock (JObj kvs)) k = map_of kvs k"
    by (simp add: getField_cleanBlock)
  obtain kvs' where c: "cleanBlock (JObj kvs) = JObj kvs'"
    by (cases "map_of kvs ''cache_control'' = None") (simp_all add: cleanBlock_def)
  from g [of "''type''"] g [of "''text''"] g [of "''signature''"] a
  have "assistantBlock (JObj kvs')"
    unfolding c by (simp add: thinkingTyped_def hasType_def)
  then show ?thesis by (simp add: JObj c)
qed simp_all

lemma toolCallBlock_cleanBlock: "toolCallBlock b \<Longrightarrow> toolCallBlock (cleanBlock b)"
  by (simp add: toolCallBlock_def assistantBlock_cleanBlock getField_cleanBlock)


lemma cleanMessage_protocolA: "protocolAMessage m \<Longrightarrow> protocolAMessage (cleanMessage m)"
proof (cases m)
  case (JObj kvs)
  assume "protocolAMessage m"
  then have a: "protocolAMessage (JObj kvs)" by (simp add: JObj)
  have "protocolAMessage (cleanMessage (JObj kvs))"
  proof (cases "\<exists>content. map_of kvs ''content'' = Some (JArr content)")
    case False
    then have "cleanMessage (JObj kvs) = JObj kvs"
      by (auto simp: cleanMessage_def split: option.splits json.splits)
    with a show ?thesis by simp
  next
    case True
    then obtain content where c: "map_of kvs ''content'' = Some (JArr content)" by blast
    then have cm: "cleanMessage (JObj kvs)
        = JObj (AList.update ''content'' (JArr (map cleanBlock content)) kvs)"
      by (simp add: cleanMessage_def)
    have role: "getField (cleanMessage (JObj kvs)) ''role'' = map_of kvs ''role''"
      unfolding cm by (simp add: update_conv')
    have cont: "getField (cleanMessage (JObj kvs)) ''content''
        = Some (JArr (map cleanBlock content))"
      unfolding cm by (simp add: update_conv')
    have obj: "isObject (cleanMessage (JObj kvs))"
      unfolding cm by simp
    have u: "list_all userBlock content \<Longrightarrow> list_all userBlock (map cleanBlock content)"
      by (simp add: list_all_iff userBlock_cleanBlock)
    have t: "list_all toolCallBlock content \<Longrightarrow> list_all toolCallBlock (map cleanBlock content)"
      by (simp add: list_all_iff toolCallBlock_cleanBlock)
    from a c have ua: "map_of kvs ''role'' = Some (JStr ''user'') \<Longrightarrow> list_all userBlock content"
      by (simp add: protocolAMessage_def blocksIfArray_def)
    from a c have aa: "map_of kvs ''role'' = Some (JStr ''assistant'')
        \<Longrightarrow> list_all toolCallBlock content"
      by (simp add: protocolAMessage_def blocksIfArray_def)
    show ?thesis
      by (simp add: protocolAMessage_def role cont obj blocksIfArray_def u t ua aa)
  qed
  then show ?thesis by (simp add: JObj)
qed (simp_all add: cleanMessage_def)

lemma messagesLoop_total:
  "list_all protocolAMessage msgs \<Longrightarrow> \<exists>items. messagesLoop stringify rnd i msgs = Inr items"
proof (induction msgs arbitrary: i)
  case Nil
  then show ?case by simp
next
  case (Cons msg rest)
  then have m: "protocolAMessage msg" and rest: "list_all protocolAMessage rest" by simp_all
  from m have nn: "msg \<noteq> JNull" by (simp add: protocolAMessage_def isObject_not_null)
  from Cons.IH [OF rest] obtain items where
    ih: "messagesLoop stringify rnd (i + 1) rest = Inr items" by blast
  show ?case
  proof (cases "getField msg ''role'' = Some (JStr ''user'')")
    case True
    with m have ok: "blocksIfArray userBlock (getField msg ''content'')"
      by (simp add: protocolAMessage_def)
    have "\<exists>r. convertUserContent stringify rnd i (getField msg ''content'') = Inr r"
    proof (cases "\<exists>blocks. getField msg ''content'' = Some (JArr blocks)")
      case True
      then obtain blocks where c: "getField msg ''content'' = Some (JArr blocks)" by blast
      with ok have "list_all userBlock blocks" by (simp add: blocksIfArray_def)
      from userBlocks_total [OF this] c show ?thesis by (simp add: convertUserContent_def)
    next
      case False
      then show ?thesis
        by (auto simp: convertUserContent_def split: option.splits json.splits)
    qed
    then obtain textParts toolResults where
      "convertUserContent stringify rnd i (getField msg ''content'') = Inr (textParts, toolResults)"
      by fastforce
    with nn True ih show ?thesis by simp
  next
    case notUser: False
    show ?thesis
    proof (cases "getField msg ''role'' = Some (JStr ''assistant'')")
      case False
      with notUser nn ih show ?thesis by simp
    next
      case True
      with m notUser have ok: "blocksIfArray toolCallBlock (getField msg ''content'')"
        by (simp add: protocolAMessage_def)
      show ?thesis
      proof (cases "\<exists>blocks. getField msg ''content'' = Some (JArr blocks)")
        case True
        then obtain blocks where c: "getField msg ''content'' = Some (JArr blocks)" by blast
        with ok have "list_all toolCallBlock blocks" by (simp add: blocksIfArray_def)
        from process_toolCallBlocks [OF this] obtain out where
          p: "processAssistantContent (JArr blocks) = Inr (JArr out)"
          and q: "list_all toolCallBlock out" by blast
        from assistantBlocks_total [OF q] obtain textParts toolCalls where
          "assistantBlocks stringify rnd i 0 out = Inr (textParts, toolCalls)" by fastforce
        with nn notUser \<open>getField msg ''role'' = Some (JStr ''assistant'')\<close> ih c p
        show ?thesis by (simp add: convertAssistantContentToOpenAI_def)
      next
        case False
        then have "\<exists>r. convertAssistantContentToOpenAI stringify rnd i (getField msg ''content'') = Inr r
             \<and> (case getField msg ''content'' of
                 Some (JArr content) \<Rightarrow>
                   (case processAssistantContent (JArr content) of
                      Inl e \<Rightarrow> Inl e
                    | Inr processed \<Rightarrow> Inr (Some processed))
               | other \<Rightarrow> Inr other) = Inr (getField msg ''content'')"
          by (auto simp: convertAssistantContentToOpenAI_def split: option.splits json.splits)
        then obtain textParts toolCalls where
          "convertAssistantContentToOpenAI stringify rnd i (getField msg ''content'') = Inr (textParts, toolCalls)"
          and "(case getField msg ''content'' of
                 Some (JArr content) \<Rightarrow>
                   (case processAssistantContent (JArr content) of
                      Inl e \<Rightarrow> Inl e
                    | Inr processed \<Rightarrow> Inr (Some processed))
               | other \<Rightarrow> Inr other) = Inr (getField msg ''content'')"
          by fastforce
        with nn notUser \<open>getField msg ''role'' = Some (JStr ''assistant'')\<close> ih
        show ?thesis by simp
      qed
    qed
  qed
qed

lemma convertMessages_total:
  assumes "blocksIfArray protocolAMessage messages"
  shows "\<exists>input. convertMessagesToInput stringify rnd
            (cleanCacheControl
                (case messages of
                   Some m \<Rightarrow> if truthy m then m else JArr []
                 | None \<Rightarrow> JArr [])) = Inr input"
proof (cases "\<exists>msgs. messages = Some (JArr msgs)")
  case True
  then obtain msgs where c: "messages = Some (JArr msgs)" by blast
  with assms have "list_all protocolAMessage msgs" by (simp add: blocksIfArray_def)
  then have "list_all protocolAMessage (map cleanMessage msgs)"
    by (simp add: list_all_iff cleanMessage_protocolA)
  from messagesLoop_total [OF this] obtain items where
    "messagesLoop stringify rnd 0 (map cleanMessage msgs) = Inr items" by blast
  with c show ?thesis by (simp add: convertMessagesToInput_def cleanCacheControl_def)
next
  case False
  then show ?thesis
    by (auto simp: convertMessagesToInput_def cleanCacheControl_def
        split: option.splits json.splits)
qed

lemma convert_total:
  assumes "protocolARequest req"
  shows "\<exists>request. convertAnthropicToResponsesAPI stringify rnd req = Inr request"
proof -
  from assms have nn: "req \<noteq> JNull" by (simp add: protocolARequest_def isObject_not_null)
  from assms obtain instr where i: "extractSystemPrompt (getField req ''system'') = Inr instr"
    using extractSystemPrompt_total by (auto simp: protocolARequest_def)
  from assms obtain input where inp: "convertMessagesToInput stringify rnd
            (cleanCacheControl
                (case getField req ''messages'' of
                   Some m \<Rightarrow> if truthy m then m else JArr []
                 | None \<Rightarrow> JArr [])) = Inr input"
    using convertMessages_total [of "getField req ''messages''"] by (auto simp: protocolARequest_def)
  from assms obtain tools where t: "(case getField req ''tools'' of
                 Some tools \<Rightarrow>
                   if truthy tools then convertAnthropicToolsToOpenAI tools else Inr (JArr [])
               | None \<Rightarrow> Inr (JArr [])) = Inr tools"
    using requestTools_total [of "getField req ''tools''"] by (auto simp: protocolARequest_def)
  from nn i inp t show ?thesis
    by (simp add: convertAnthropicToResponsesAPI_def Let_def)
qed

text \<open>
  The request that \<open>sendMessage\<close> passes to the converter has the \<open>tools\<close>, \<open>system\<close>
  and \<open>messages\<close> of the inbound request: the name of an indexed member ends with a digit.
\<close>

lemma digitsOf_last: "of_char (last (digitsOf n)) = 48 + n mod 10"
  by (subst digitsOf.simps) simp

lemma indexed_member:
  assumes "(of_char (last k) :: nat) \<notin> {48 ..< 58}"
  shows "map_of (zip (map digitsOf [0 ..< n]) xs) k = None"
proof -
  have "k \<notin> set (map digitsOf [0 ..< n])"
  proof
    assume "k \<in> set (map digitsOf [0 ..< n])"
    then obtain i where "k = digitsOf i" by auto
    with digitsOf_last [of i] have "(of_char (last k) :: nat) = 48 + i mod 10" by simp
    moreover have "i mod 10 < 10" by simp
    ultimately show False using assms by simp
  qed
  then have "k \<notin> fst ` set (zip (map digitsOf [0 ..< n]) xs)"
    by (auto dest: set_zip_leftD)
  then show ?thesis by (simp add: map_of_eq_None_iff)
qed

lemma spread_member:
  assumes "k \<noteq> ''stream''" and "(of_char (last k) :: nat) \<notin> {48 ..< 58}"
  shows "getField (JObj (AList.update ''stream'' (JBool False) (ownEntries req))) k
     = getField req k"
  using assms by (cases req) (simp_all add: update_conv' indexed_member)

lemma spread_members:
  "getField (JObj (AList.update ''stream'' (JBool False) (ownEntries req))) ''tools''
     = getField req ''tools''"
  "getField (JObj (AList.update ''stream'' (JBool False) (ownEntries req))) ''system''
     = getField req ''system''"
  "getField (JObj (AList.update ''stream'' (JBool False) (ownEntries req))) ''messages''
     = getField req ''messages''"
  by (rule spread_member; simp)+

text \<open>
  A Protocol-A request is an object, and spreading it keeps it one.
\<close>

lemma spread_protocolA:
  "protocolARequest req \<Longrightarrow>
   protocolARequest (JObj (AList.update ''stream'' (JBool False) (ownEntries req)))"
  unfolding protocolARequest_def by (simp add: spread_members del: getField.simps)

text \<open>
  C9. Whenever \<open>convertAnthropicToResponsesAPI\<close> returns a request, for any inbound request
  (so whatever its own \<open>stream\<close> member is), and whenever \<open>sendMessage\<close>, which asks for a
  non-streaming response by passing \<open>stream: false\<close>, builds its request, the built request has
  \<open>store\<close> false, \<open>stream\<close> true and \<open>parallel_tool_calls\<close> true, its \<open>tools\<close> is an array,
  empty when the inbound request has no \<open>tools\<close>, and its \<open>instructions\<close> is a string, empty
  when the inbound request has no \<open>system\<close>. Both return a request for every Protocol-A
  request.
\<close>

theorem fixed_request_members:
  "((convertAnthropicToResponsesAPI stringify rnd req = Inr request \<or>
     sendMessageRequest stringify rnd req = Inr request) \<longrightarrow>
      fixedMembers request \<and> arrayMember request ''tools'' \<and>
      stringMember request ''instructions'' \<and>
      (getField req ''tools'' = None \<longrightarrow> getField request ''tools'' = Some (JArr [])) \<and>
      (getField req ''system'' = None \<longrightarrow> getField request ''instructions'' = Some (JStr [])))
   \<and> (protocolARequest req \<longrightarrow>
        (\<exists>built. convertAnthropicToResponsesAPI stringify rnd req = Inr built) \<and>
        (\<exists>built. sendMessageRequest stringify rnd req = Inr built))"
proof (rule conjI; rule impI)
  assume "convertAnthropicToResponsesAPI stringify rnd req = Inr request \<or>
     sendMessageRequest stringify rnd req = Inr request"
  then show "fixedMembers request \<and> arrayMember request ''tools'' \<and>
      stringMember request ''instructions'' \<and>
      (getField req ''tools'' = None \<longrightarrow> getField request ''tools'' = Some (JArr [])) \<and>
      (getField req ''system'' = None \<longrightarrow> getField request ''instructions'' = Some (JStr []))"
  proof
    assume "convertAnthropicToResponsesAPI stringify rnd req = Inr request"
    then show ?thesis by (rule convert_members)
  next
    assume "sendMessageRequest stringify rnd req = Inr request"
    then have "convertAnthropicToResponsesAPI stringify rnd
       (JObj (AList.update ''stream'' (JBool False) (ownEntries req))) = Inr request"
      by (simp add: sendMessageRequest_def)
    from convert_members [OF this] show ?thesis
      by (simp add: spread_members del: getField.simps)
  qed
next
  assume p: "protocolARequest req"
  have 1: "\<exists>built. convertAnthropicToResponsesAPI stringify rnd req = Inr built"
    using p by (rule convert_total)
  have 2: "\<exists>built. sendMessageRequest stringify rnd req = Inr built"
    unfolding sendMessageRequest_def using spread_protocolA [OF p] by (rule convert_total)
  from 1 2 show "(\<exists>built. convertAnthropicToResponsesAPI stringify rnd req = Inr built) \<and>
        (\<exists>built. sendMessageRequest stringify rnd req = Inr built)" by blast
qed

text \<open>
  A request for a non-streaming response with one user message, no tools and no system
  prompt: \<open>sendMessage\<close> builds a request, which is a streaming one with an empty tool array
  and empty instructions.
\<close>

theorem fixed_request_members_witness:
  "protocolARequest
     (JObj [(''model'', JStr ''claude-sonnet-4-5''), (''stream'', JBool False),
            (''messages'', JArr [JObj [(''role'', JStr ''user''), (''content'', JStr ''hi'')]])])
   \<and> (\<exists>request.
        sendMessageRequest (\<lambda>v. ''{}'') (\<lambda>i j. ''0'')
          (JObj [(''model'', JStr ''claude-sonnet-4-5''), (''stream'', JBool False),
                 (''messages'', JArr [JObj [(''role'', JStr ''user''), (''content'', JStr ''hi'')]])])
          = Inr request
        \<and> fixedMembers request
        \<and> getField request ''tools'' = Some (JArr [])
        \<and> getField request ''instructions'' = Some (JStr []))"
proof -
  let ?req = "JObj [(''model'', JStr ''claude-sonnet-4-5''), (''stream'', JBool False),
            (''messages'', JArr [JObj [(''role'', JStr ''user''), (''content'', JStr ''hi'')]])]"
  have p: "protocolARequest ?req"
    by (simp add: protocolARequest_def blocksIfArray_def protocolAMessage_def)
  have t: "getField ?req ''tools'' = None" and s: "getField ?req ''system'' = None"
    by simp_all
  from p fixed_request_members [of "\<lambda>v. ''{}''" "\<lambda>i j. ''0''" ?req]
  obtain built where b: "sendMessageRequest (\<lambda>v. ''{}'') (\<lambda>i j. ''0'') ?req = Inr built"
    by blast
  from b t s fixed_request_members [of "\<lambda>v. ''{}''" "\<lambda>i j. ''0''" ?req built]
  have "fixedMembers built \<and> getField built ''tools'' = Some (JArr [])
        \<and> getField built ''instructions'' = Some (JStr [])"
    by blast
  with p b show ?thesis by blast
qed

end
